theory Spec2Isabelle
  imports Main "HOL-Library.Sublist"
begin

section \<open>Failures\<close>

text \<open>
  The sources stop on a failed \<^verbatim>\<open>assert\<close>, on a \<^verbatim>\<open>std::out_of_range\<close> thrown by a
  string operation, and on the use of a NULL handle returned by the polyhedral library.
  The specification names two failures of the schedule algebra. Each is a value here.
\<close>

datatype error =
    AssertionFailed
  | OutOfRange
  | NullPointer
  | InvalidLevel
  | InvalidFactor

section \<open>The library object: parallel and vector tags\<close>

text \<open>
  \<^verbatim>\<open>isl_ctx\<close> is owned by the library (allocated in its constructor). The only part of
  its state the sources write is the option \<^verbatim>\<open>ast_build_atomic_upper_bound\<close>.
\<close>

record isl_ctx =
  ast_build_atomic_upper_bound :: int

text \<open>
  \<^verbatim>\<open>class library\<close> of core.h. \<open>lib_functions\<close> (the field \<^verbatim>\<open>functions\<close>) holds the addresses of
  the functions, the two
  tag maps are \<^verbatim>\<open>std::map<std::string, int>\<close>, the AST is NULL (\<open>None\<close>) until generated.
  The type of the AST is a parameter: the AST is built by the polyhedral library.
\<close>

record 'ast library =
  lib_name :: string
  lib_functions :: "nat list"
  ctx :: isl_ctx
  ast :: "'ast option"
  parallel_dimensions :: "string \<rightharpoonup> int"
  vector_dimensions :: "string \<rightharpoonup> int"

definition parallelize :: "'ast library \<Rightarrow> string \<Rightarrow> int \<Rightarrow> error + bool" where
  "parallelize lib comp' lev =
     (if \<not> length comp' > 0 then Inl AssertionFailed
      else if \<not> lev \<ge> 0 then Inl AssertionFailed
      else (case parallel_dimensions lib comp' of
              None \<Rightarrow> Inr False
            | Some second \<Rightarrow> Inr (second = lev)))"

definition vectorize :: "'ast library \<Rightarrow> string \<Rightarrow> int \<Rightarrow> error + bool" where
  "vectorize lib comp' lev =
     (if \<not> length comp' > 0 then Inl AssertionFailed
      else if \<not> lev \<ge> 0 then Inl AssertionFailed
      else (case vector_dimensions lib comp' of
              None \<Rightarrow> Inr False
            | Some second \<Rightarrow> Inr (second = lev)))"

text \<open>
  Modelled from the spec: \<^verbatim>\<open>library::add_parallel_dimension\<close> and
  \<^verbatim>\<open>library::add_vector_dimension\<close> are declared in core.h and defined nowhere in the
  sources. The specification says of tagging: record \<open>(C, L)\<close> in the Program's tag map;
  re-tagging replaces.
\<close>

definition add_parallel_dimension :: "string \<Rightarrow> int \<Rightarrow> 'ast library \<Rightarrow> 'ast library" where
  "add_parallel_dimension computation_name vec_dim lib =
     lib\<lparr>parallel_dimensions := (parallel_dimensions lib)(computation_name \<mapsto> vec_dim)\<rparr>"

definition add_vector_dimension :: "string \<Rightarrow> int \<Rightarrow> 'ast library \<Rightarrow> 'ast library" where
  "add_vector_dimension computation_name vec_dim lib =
     lib\<lparr>vector_dimensions := (vector_dimensions lib)(computation_name \<mapsto> vec_dim)\<rparr>"

definition library0 :: "unit library" where
  "library0 = \<lparr>lib_name = ''library0'', lib_functions = [0],
               ctx = \<lparr>ast_build_atomic_upper_bound = 0\<rparr>, ast = None,
               parallel_dimensions = [''S0'' \<mapsto> 1], vector_dimensions = [''S0'' \<mapsto> 3]\<rparr>"

section \<open>The polyhedral library\<close>

text \<open>
  Modelled from the spec: the Presburger library (isl) is an external collaborator, present
  in the sources only through the calls made to it. Its values are modelled by what its
  contract says they denote: a set is a tuple name, a number of dimensions and a set of
  integer points; a relation is two such spaces and a set of pairs of points. A tuple
  without a name has the name \<open>None\<close> (the library returns a NULL string for it), which
  differs from a tuple named by the empty string. A NULL handle is \<open>None\<close>.
\<close>

type_synonym point = "int list"

datatype isl_dim_type = isl_dim_in | isl_dim_out | isl_dim_set

record isl_space =
  space_tuple_name :: "string option"
  space_n_dim :: nat

record isl_map_space =
  space_in :: isl_space
  space_out :: isl_space

record isl_set =
  set_tuple_name :: "string option"
  set_n_dim :: nat
  set_points :: "point set"

record isl_map =
  in_tuple_name :: "string option"
  in_n_dim :: nat
  out_tuple_name :: "string option"
  out_n_dim :: nat
  map_pairs :: "(point \<times> point) set"

definition isl_set_get_space :: "isl_set \<Rightarrow> isl_space" where
  "isl_set_get_space s = \<lparr>space_tuple_name = set_tuple_name s, space_n_dim = set_n_dim s\<rparr>"

definition isl_space_get_tuple_name :: "isl_space \<Rightarrow> isl_dim_type \<Rightarrow> string option" where
  "isl_space_get_tuple_name sp t = space_tuple_name sp"

definition isl_space_map_from_set :: "isl_space \<Rightarrow> isl_map_space" where
  "isl_space_map_from_set sp = \<lparr>space_in = sp, space_out = sp\<rparr>"

text \<open>The identity relation on a space relates every point of the space to itself.\<close>

definition isl_map_identity :: "isl_map_space \<Rightarrow> isl_map" where
  "isl_map_identity sp =
     \<lparr>in_tuple_name = space_tuple_name (space_in sp), in_n_dim = space_n_dim (space_in sp),
      out_tuple_name = space_tuple_name (space_out sp), out_n_dim = space_n_dim (space_out sp),
      map_pairs = {(x, y). length x = space_n_dim (space_in sp) \<and> y = x}\<rparr>"

definition isl_map_get_tuple_name :: "isl_map \<Rightarrow> isl_dim_type \<Rightarrow> string option" where
  "isl_map_get_tuple_name m t = (if t = isl_dim_in then in_tuple_name m else out_tuple_name m)"

definition isl_map_set_tuple_name :: "isl_map \<Rightarrow> isl_dim_type \<Rightarrow> string \<Rightarrow> isl_map" where
  "isl_map_set_tuple_name m t s =
     (if t = isl_dim_in then m\<lparr>in_tuple_name := Some s\<rparr> else m\<lparr>out_tuple_name := Some s\<rparr>)"

text \<open>
  \<open>apply(Set, Relation)\<close> is the image of the set under the relation; composing
  incompatible spaces fails (a NULL result).
\<close>

definition isl_set_apply :: "isl_set \<Rightarrow> isl_map \<Rightarrow> isl_set option" where
  "isl_set_apply s m =
     (if set_tuple_name s = in_tuple_name m \<and> set_n_dim s = in_n_dim m
      then Some \<lparr>set_tuple_name = out_tuple_name m, set_n_dim = out_n_dim m,
                 set_points = map_pairs m `` set_points s\<rparr>
      else None)"

text \<open>
  The textual interface of the library (\<^verbatim>\<open>isl_set_read_from_str\<close>,
  \<^verbatim>\<open>isl_map_read_from_str\<close>, \<^verbatim>\<open>isl_set_to_str\<close>) is a parameter of the functions that
  call it: what text the library accepts and prints is not decided by the sources.
\<close>

record isl_text =
  isl_set_read_from_str :: "string \<Rightarrow> isl_set option"
  isl_map_read_from_str :: "string \<Rightarrow> isl_map option"
  isl_set_to_str :: "isl_set \<Rightarrow> string"

text \<open>
  Modelled from the spec: the notation of the texts. The specification gives the
  canonical polyhedral forms, \<open>{Name[d1,...] -> Name'[e1,...] : constraints}\<close> for a
  relation and \<open>{Name[d1,...] : constraints}\<close> for a set; the constraint part is optional.
  A tuple is written as its name followed by its dimensions in brackets, with spaces
  around it at will. \<open>map_text a b t\<close>: the text \<open>t\<close> is in the map form, from a tuple
  named \<open>a\<close> to a tuple named \<open>b\<close>. \<open>set_text n t\<close>: the text \<open>t\<close> is in the set form, for
  a tuple named \<open>n\<close>, with no parameter list before the opening brace (a \<^verbatim>\<open>std::string\<close>
  is shorter than \<open>2 ^ 63\<close> characters).
\<close>

definition spaces :: "string \<Rightarrow> bool" where
  "spaces s = (set s \<subseteq> {CHR '' ''})"

definition tuple_text :: "string \<Rightarrow> string \<Rightarrow> bool" where
  "tuple_text n t =
     (n \<noteq> [] \<and> set n \<inter> set '' []{}:->,'' = {}
      \<and> (\<exists>sp ds sp'. t = sp @ n @ ''['' @ ds @ '']'' @ sp' \<and> spaces sp \<and> spaces sp'
            \<and> set ds \<inter> set ''[]{}:'' = {}))"

definition set_text :: "string \<Rightarrow> string \<Rightarrow> bool" where
  "set_text n t =
     (length t < 2 ^ 63
      \<and> (\<exists>d. tuple_text n d
            \<and> (t = ''{'' @ d @ ''}''
                \<or> (\<exists>c. t = ''{'' @ d @ '':'' @ c @ ''}'' \<and> CHR ''}'' \<notin> set c))))"

definition map_text :: "string \<Rightarrow> string \<Rightarrow> string \<Rightarrow> bool" where
  "map_text a b t =
     (\<exists>d r rest. t = ''{'' @ d @ ''->'' @ r @ rest \<and> tuple_text a d \<and> tuple_text b r
        \<and> (rest = ''}'' \<or> (\<exists>c. rest = '':'' @ c @ ''}'')))"

text \<open>
  Modelled from the spec: the contract of the textual interface, as far as tuple names
  go. The reader follows the notation when every relation that it returns for a text in
  the map form has the two tuple names written in the text. The printer writes a set in
  the set form when the text that it gives for the set is in the set form, for the tuple
  name of the set.
\<close>

definition reads_tuple_names :: "isl_text \<Rightarrow> bool" where
  "reads_tuple_names isl' =
     (\<forall>t a b m. isl_map_read_from_str isl' t = Some m \<and> map_text a b t \<longrightarrow>
        in_tuple_name m = Some a \<and> out_tuple_name m = Some b)"

definition prints_set_form :: "isl_text \<Rightarrow> isl_set \<Rightarrow> bool" where
  "prints_set_form isl' s =
     (case set_tuple_name s of
        None \<Rightarrow> False
      | Some n \<Rightarrow> set_text n (isl_set_to_str isl' s))"

section \<open>Strings\<close>

text \<open>
  \<^verbatim>\<open>std::string\<close> positions are \<^verbatim>\<open>size_t\<close>: naturals below \<open>2 ^ 64\<close>, with the arithmetic
  of the sources taken modulo \<open>2 ^ 64\<close>. \<open>npos\<close> is the largest of them. \<open>find\<close> returns the
  first position at or after \<open>pos\<close> where the pattern starts, or \<open>npos\<close>; \<open>erase\<close>,
  \<open>insert\<close> and \<open>substr\<close> throw \<^verbatim>\<open>std::out_of_range\<close> for a position beyond the end.
\<close>

definition npos :: nat where
  "npos = 2 ^ 64 - 1"

definition size_t_add :: "nat \<Rightarrow> nat \<Rightarrow> nat" where
  "size_t_add a b = (a + b) mod 2 ^ 64"

definition size_t_sub :: "nat \<Rightarrow> nat \<Rightarrow> nat" where
  "size_t_sub a b = nat ((int a - int b) mod 2 ^ 64)"

primrec find_aux :: "string \<Rightarrow> string \<Rightarrow> nat \<Rightarrow> nat" where
  "find_aux pat [] k = (if pat = [] then k else npos)"
| "find_aux pat (c # cs) k = (if prefix pat (c # cs) then k else find_aux pat cs (Suc k))"

definition string_find :: "string \<Rightarrow> string \<Rightarrow> nat \<Rightarrow> nat" where
  "string_find str pat pos =
     (if pos > length str then npos else find_aux pat (drop pos str) pos)"

definition string_erase :: "string \<Rightarrow> nat \<Rightarrow> nat \<Rightarrow> error + string" where
  "string_erase str pos len =
     (if pos > length str then Inl OutOfRange
      else Inr (take pos str @ drop (pos + min len (length str - pos)) str))"

definition string_insert :: "string \<Rightarrow> nat \<Rightarrow> string \<Rightarrow> error + string" where
  "string_insert str pos s =
     (if pos > length str then Inl OutOfRange else Inr (take pos str @ s @ drop pos str))"

definition string_substr :: "string \<Rightarrow> nat \<Rightarrow> nat \<Rightarrow> error + string" where
  "string_substr str pos len =
     (if pos > length str then Inl OutOfRange
      else Inr (take (min len (length str - pos)) (drop pos str)))"

definition bind_error :: "error + 'a \<Rightarrow> ('a \<Rightarrow> error + 'b) \<Rightarrow> error + 'b" where
  "bind_error m f = (case m of Inl e \<Rightarrow> Inl e | Inr a \<Rightarrow> f a)"

section \<open>Functions and computations\<close>

text \<open>
  \<^verbatim>\<open>class function\<close> (\<open>coli_function\<close> here): the owning library and the computations of the body are held by
  address. The arguments, the buffers and the Halide statement are not read or written
  by the functions modelled here.
\<close>

record coli_function =
  library :: "nat option"
  fct_name :: string
  body :: "nat list"

text \<open>
  Modelled from the spec: \<^verbatim>\<open>function::add_computation\<close> is declared in core.h and defined
  nowhere in the sources. A Function holds a multiset of Computations; adding one
  appends its address to the body vector.
\<close>

definition add_computation :: "coli_function \<Rightarrow> nat \<Rightarrow> coli_function" where
  "add_computation f cpt = f\<lparr>body := body f @ [cpt]\<rparr>"

text \<open>
  \<^verbatim>\<open>class computation\<close>. The Halide expression, the Halide statement and the isl AST
  expression are values of external types, which are parameters. \<open>fct\<close> is the field
  \<^verbatim>\<open>function\<close> (the address of the owning function). The pointer to the isl context
  is not a field here: the library operations of the model take no context.
\<close>

record ('e, 's, 'x) computation =
  time_processor_space :: "isl_set option"
  iter_space :: "isl_set option"
  schedule :: "isl_map option"
  fct :: nat
  name :: string
  expression :: 'e
  stmt :: "'s option"
  access :: "isl_map option"
  index_expr :: "'x option"

definition get_iteration_space_representation ::
  "('e, 's, 'x) computation \<Rightarrow> error + isl_set" where
  "get_iteration_space_representation c =
     (case iter_space c of None \<Rightarrow> Inl AssertionFailed | Some s \<Rightarrow> Inr s)"

definition get_time_processor_representation ::
  "('e, 's, 'x) computation \<Rightarrow> isl_set option" where
  "get_time_processor_representation c = time_processor_space c"

definition get_schedule :: "('e, 's, 'x) computation \<Rightarrow> isl_map option" where
  "get_schedule c = schedule c"

text \<open>
  \<^verbatim>\<open>gen_time_processor_IR\<close>: two assertions, then one assignment to
  \<^verbatim>\<open>time_processor_space\<close>.
\<close>

definition gen_time_processor_IR ::
  "('e, 's, 'x) computation \<Rightarrow> error + ('e, 's, 'x) computation" where
  "gen_time_processor_IR c =
     bind_error (get_iteration_space_representation c) (\<lambda>s.
       case get_schedule c of
         None \<Rightarrow> Inl AssertionFailed
       | Some m \<Rightarrow> Inr (c\<lparr>time_processor_space := isl_set_apply s m\<rparr>))"

text \<open>
  \<^verbatim>\<open>get_time_processor_identity_relation\<close> is a method that is not declared const: it
  returns the relation together with the computation as it leaves it.
\<close>

definition get_time_processor_identity_relation ::
  "('e, 's, 'x) computation \<Rightarrow> error + (isl_map \<times> ('e, 's, 'x) computation)" where
  "get_time_processor_identity_relation c =
     (case get_time_processor_representation c of
        None \<Rightarrow> Inl AssertionFailed
      | Some tp \<Rightarrow>
          (let sp = isl_set_get_space tp;
               out = isl_map_identity (isl_space_map_from_set sp);
               out = isl_map_set_tuple_name out isl_dim_out []
           in Inr (out, c)))"

text \<open>
  \<^verbatim>\<open>set_schedule(isl_map *)\<close>: \<^verbatim>\<open>strcmp\<close> on the two tuple names, an assertion that they do
  not differ, then the assignment. \<^verbatim>\<open>strcmp\<close> dereferences its arguments: a NULL map or
  a tuple without a name stops the program.
\<close>

definition set_schedule ::
  "isl_map option \<Rightarrow> ('e, 's, 'x) computation \<Rightarrow> error + ('e, 's, 'x) computation" where
  "set_schedule map' c =
     (case map' of
        None \<Rightarrow> Inl NullPointer
      | Some m \<Rightarrow>
          (case (isl_map_get_tuple_name m isl_dim_in, isl_map_get_tuple_name m isl_dim_out) of
             (Some a, Some b) \<Rightarrow>
               (if a = b then Inr (c\<lparr>schedule := Some m\<rparr>) else Inl AssertionFailed)
           | _ \<Rightarrow> Inl NullPointer))"

text \<open>
  Modelled from the spec: \<^verbatim>\<open>set_schedule(std::string)\<close> is declared in core.h and defined
  nowhere in the sources. Its documentation says that the input string must be in the
  ISL map format: the text is read as a relation, which is then set as the schedule.
\<close>

definition set_schedule_str ::
  "isl_text \<Rightarrow> string \<Rightarrow> ('e, 's, 'x) computation \<Rightarrow> error + ('e, 's, 'x) computation" where
  "set_schedule_str isl' map_str c = set_schedule (isl_map_read_from_str isl' map_str) c"

text \<open>
  The text that \<^verbatim>\<open>set_identity_schedule\<close> builds from the printed iteration set, by
  \<^verbatim>\<open>find\<close>, \<^verbatim>\<open>erase\<close> and \<^verbatim>\<open>insert\<close>.
\<close>

definition identity_schedule_str :: "string \<Rightarrow> error + string" where
  "identity_schedule_str set_str =
     (let domain = set_str; schedule_map_str = set_str in
      bind_error (string_erase domain (string_find domain ''{'' 0) 1) (\<lambda>domain.
      bind_error (string_erase domain (string_find domain ''}'' 0) 1) (\<lambda>domain.
      bind_error
        (if string_find schedule_map_str '':'' 0 \<noteq> npos
         then string_erase domain (string_find domain '':'' 0)
                (size_t_sub (length domain) (string_find domain '':'' 0))
         else Inr domain) (\<lambda>domain.
      if string_find schedule_map_str '':'' 0 \<noteq> npos
      then string_insert schedule_map_str (string_find schedule_map_str '':'' 0)
             ('' -> '' @ domain)
      else string_insert schedule_map_str
             (size_t_add (string_find schedule_map_str '']'' 0) 1) ('' -> '' @ domain)))))"

definition set_identity_schedule ::
  "isl_text \<Rightarrow> ('e, 's, 'x) computation \<Rightarrow> error + ('e, 's, 'x) computation" where
  "set_identity_schedule isl' c =
     bind_error (get_iteration_space_representation c) (\<lambda>s.
     bind_error (identity_schedule_str (isl_set_to_str isl' s)) (\<lambda>schedule_map_str.
       set_schedule_str isl' schedule_map_str c))"

text \<open>
  The constructor. \<open>this\<close> is the address of the object under construction, \<open>fct'\<close> the
  pointer argument: NULL, or the address of a function and the function found there.
  \<open>computations_list\<close> is the global registry (\<^verbatim>\<open>std::map::insert\<close> keeps an entry that is
  already there). The constructor returns the new object, the registry and the function
  as it leaves them.
\<close>

definition new_computation ::
  "isl_text \<Rightarrow> nat \<Rightarrow> 'e \<Rightarrow> string \<Rightarrow> (nat \<times> coli_function) option \<Rightarrow> (string \<rightharpoonup> nat)
     \<Rightarrow> error + (('e, 's, 'x) computation \<times> (string \<rightharpoonup> nat) \<times> coli_function)" where
  "new_computation isl' this expr iteration_space_str fct' computations_list =
     (case fct' of
        None \<Rightarrow> Inl AssertionFailed
      | Some (fct_addr, f) \<Rightarrow>
          if \<not> length iteration_space_str > 0 then Inl AssertionFailed
          else if library f = None then Inl AssertionFailed
          else
            (case isl_set_read_from_str isl' iteration_space_str of
               None \<Rightarrow> Inl NullPointer
             | Some s \<Rightarrow>
                 (case isl_space_get_tuple_name (isl_set_get_space s) isl_dim_set of
                    None \<Rightarrow> Inl NullPointer
                  | Some n \<Rightarrow>
                      (let c = \<lparr>time_processor_space = None, iter_space = Some s,
                                schedule = None, fct = fct_addr, name = n, expression = expr,
                                stmt = None, access = None, index_expr = None\<rparr>;
                           computations_list =
                             (if n \<in> dom computations_list then computations_list
                              else computations_list(n \<mapsto> this));
                           f = add_computation f this
                       in bind_error (set_identity_schedule isl' c) (\<lambda>c.
                            Inr (c, computations_list, f))))))"

subsection \<open>Schedule algebra\<close>

text \<open>
  Modelled from the spec: \<^verbatim>\<open>computation::split\<close>, \<^verbatim>\<open>computation::interchange\<close> and
  \<^verbatim>\<open>computation::tile\<close> are declared in core.h and defined nowhere in the sources. The
  specification describes each as a rewrite of the range of the current schedule:
  \<^item> \<open>split(C, d, f)\<close> replaces the coordinate \<open>t\<close> at level \<open>d\<close> by the two coordinates
    \<open>t div f\<close> and \<open>t mod f\<close>, and fails with \<open>InvalidLevel\<close> if \<open>d\<close> is not a level of the
    schedule or \<open>f \<le> 0\<close>;
  \<^item> \<open>interchange(C, d1, d2)\<close> swaps the coordinates at levels \<open>d1\<close> and \<open>d2\<close>, and fails if
    either is out of range or if they are equal;
  \<^item> \<open>tile(C, d1, d2, f1, f2)\<close> has the contract \<open>d1 < d2\<close>, \<open>d2 = d1 + 1\<close>, \<open>f1, f2 > 0\<close>;
    after it the loop order is (outer \<open>d1\<close>, outer \<open>d2\<close>, inner \<open>d1\<close>, inner \<open>d2\<close>) at the
    levels \<open>d1\<close>, \<open>d2\<close>, \<open>d1 + 2\<close>, \<open>d2 + 2\<close>. A non-positive tile factor is
    \<open>InvalidFactor\<close>, a level out of range \<open>InvalidLevel\<close>.
  \<open>tile\<close> is written from the loop order the specification gives for it, not from the
  sequence of splits and interchange it is said to be equivalent to.
\<close>

definition map_range_points :: "(point \<Rightarrow> point) \<Rightarrow> nat \<Rightarrow> isl_map \<Rightarrow> isl_map" where
  "map_range_points g k m =
     m\<lparr>out_n_dim := k, map_pairs := apsnd g ` map_pairs m\<rparr>"

definition split_point :: "nat \<Rightarrow> int \<Rightarrow> point \<Rightarrow> point" where
  "split_point d f y = take d y @ [y ! d div f, y ! d mod f] @ drop (Suc d) y"

definition interchange_point :: "nat \<Rightarrow> nat \<Rightarrow> point \<Rightarrow> point" where
  "interchange_point d1 d2 y = y[d1 := y ! d2, d2 := y ! d1]"

definition tile_point :: "nat \<Rightarrow> nat \<Rightarrow> int \<Rightarrow> int \<Rightarrow> point \<Rightarrow> point" where
  "tile_point d1 d2 f1 f2 y =
     take d1 y @ [y ! d1 div f1, y ! d2 div f2, y ! d1 mod f1, y ! d2 mod f2] @ drop (Suc d2) y"

definition split ::
  "('e, 's, 'x) computation \<Rightarrow> int \<Rightarrow> int \<Rightarrow> error + ('e, 's, 'x) computation" where
  "split c inDim0 sizeX =
     (case schedule c of
        None \<Rightarrow> Inl NullPointer
      | Some m \<Rightarrow>
          if inDim0 < 0 \<or> inDim0 \<ge> int (out_n_dim m) \<or> sizeX \<le> 0 then Inl InvalidLevel
          else Inr (c\<lparr>schedule :=
                 Some (map_range_points (split_point (nat inDim0) sizeX) (out_n_dim m + 1) m)\<rparr>))"

definition interchange ::
  "('e, 's, 'x) computation \<Rightarrow> int \<Rightarrow> int \<Rightarrow> error + ('e, 's, 'x) computation" where
  "interchange c inDim0 inDim1 =
     (case schedule c of
        None \<Rightarrow> Inl NullPointer
      | Some m \<Rightarrow>
          if inDim0 < 0 \<or> inDim0 \<ge> int (out_n_dim m) \<or> inDim1 < 0
             \<or> inDim1 \<ge> int (out_n_dim m) \<or> inDim0 = inDim1
          then Inl InvalidLevel
          else Inr (c\<lparr>schedule :=
                 Some (map_range_points (interchange_point (nat inDim0) (nat inDim1))
                         (out_n_dim m) m)\<rparr>))"

definition tile ::
  "('e, 's, 'x) computation \<Rightarrow> int \<Rightarrow> int \<Rightarrow> int \<Rightarrow> int \<Rightarrow> error + ('e, 's, 'x) computation"
  where
  "tile c inDim0 inDim1 sizeX sizeY =
     (case schedule c of
        None \<Rightarrow> Inl NullPointer
      | Some m \<Rightarrow>
          if inDim0 < 0 \<or> inDim1 \<ge> int (out_n_dim m) \<or> \<not> inDim0 < inDim1
             \<or> inDim1 \<noteq> inDim0 + 1
          then Inl InvalidLevel
          else if sizeX \<le> 0 \<or> sizeY \<le> 0 then Inl InvalidFactor
          else Inr (c\<lparr>schedule :=
                 Some (map_range_points (tile_point (nat inDim0) (nat inDim1) sizeX sizeY)
                         (out_n_dim m + 2) m)\<rparr>))"

text \<open>The sequence the specification compares \<open>tile\<close> with.\<close>

definition split_split_interchange ::
  "('e, 's, 'x) computation \<Rightarrow> int \<Rightarrow> int \<Rightarrow> int \<Rightarrow> error + ('e, 's, 'x) computation" where
  "split_split_interchange c d f1 f2 =
     bind_error (split c d f1) (\<lambda>c.
     bind_error (split c (d + 2) f2) (\<lambda>c.
       interchange c (d + 1) (d + 2)))"

text \<open>Every pair of a relation has a range point of the relation's range dimension.\<close>

definition range_points_wf :: "isl_map \<Rightarrow> bool" where
  "range_points_wf m = (\<forall>(x, y) \<in> map_pairs m. length y = out_n_dim m)"

subsection \<open>Sequences of schedule operations\<close>

text \<open>
  The operations that write the schedule of a computation, and their application in the
  order issued; the first failure stops the sequence.
\<close>

datatype schedule_op =
    SetSchedule "isl_map option"
  | Split int int
  | Interchange int int
  | Tile int int int int

fun apply_op ::
  "('e, 's, 'x) computation \<Rightarrow> schedule_op \<Rightarrow> error + ('e, 's, 'x) computation" where
  "apply_op c (SetSchedule m) = set_schedule m c"
| "apply_op c (Split d f) = split c d f"
| "apply_op c (Interchange d1 d2) = interchange c d1 d2"
| "apply_op c (Tile d1 d2 f1 f2) = tile c d1 d2 f1 f2"

fun apply_ops ::
  "('e, 's, 'x) computation \<Rightarrow> schedule_op list \<Rightarrow> error + ('e, 's, 'x) computation" where
  "apply_ops c [] = Inr c"
| "apply_ops c (x # xs) = bind_error (apply_op c x) (\<lambda>c. apply_ops c xs)"

text \<open>
  The schedule has a named domain tuple and a range tuple of the same name; the schedule
  has a named domain tuple whose name is that of the iteration set.
\<close>

definition schedule_names_agree :: "('e, 's, 'x) computation \<Rightarrow> bool" where
  "schedule_names_agree c =
     (case schedule c of
        None \<Rightarrow> False
      | Some m \<Rightarrow>
          (case in_tuple_name m of None \<Rightarrow> False | Some a \<Rightarrow> out_tuple_name m = Some a))"

definition schedule_named_as_iter_space :: "('e, 's, 'x) computation \<Rightarrow> bool" where
  "schedule_named_as_iter_space c =
     (case (schedule c, iter_space c) of
        (Some m, Some s) \<Rightarrow>
          (case in_tuple_name m of None \<Rightarrow> False | Some a \<Rightarrow> set_tuple_name s = Some a)
      | _ \<Rightarrow> False)"

section \<open>The literal parser\<close>

text \<open>
  The constructor of \<^verbatim>\<open>parser::map\<close> stores the results of \<^verbatim>\<open>find\<close> in variables of type
  \<^verbatim>\<open>int\<close> and compares them with \<^verbatim>\<open>std::string::npos\<close>, a \<^verbatim>\<open>size_t\<close>. The conversion
  of a \<^verbatim>\<open>size_t\<close> to \<^verbatim>\<open>int\<close> keeps the low 32 bits, read in two's complement; the
  conversion of an \<^verbatim>\<open>int\<close> to \<^verbatim>\<open>size_t\<close> (in a comparison with \<open>npos\<close>, or as an
  argument of \<^verbatim>\<open>find\<close> and \<^verbatim>\<open>substr\<close>) is taken modulo \<open>2 ^ 64\<close>. The sums and differences
  of \<^verbatim>\<open>int\<close> variables in the constructor are written without wrap-around: for a text
  shorter than \<open>2 ^ 31\<close> characters they stay between \<open>-2 ^ 31\<close> and \<open>2 ^ 31\<close>.
\<close>

definition to_int :: "nat \<Rightarrow> int" where
  "to_int x = (int x + 2 ^ 31) mod 2 ^ 32 - 2 ^ 31"

definition to_size_t :: "int \<Rightarrow> nat" where
  "to_size_t i = nat (i mod 2 ^ 64)"

text \<open>
  Modelled from the spec: \<^verbatim>\<open>split_string\<close> and \<^verbatim>\<open>parser::space::parse\<close> are declared in
  core.h and defined nowhere in the sources. \<^verbatim>\<open>split_string\<close> is documented as a helper
  that splits a string: it appends to the vector the pieces of the string between the
  occurrences of the delimiter, in order. The specification says that the parser
  tokenizes the text into dimension names: \<^verbatim>\<open>parse\<close> splits the text of a space at the
  commas.
\<close>

function split_string :: "string \<Rightarrow> string \<Rightarrow> string list \<Rightarrow> string list" where
  "split_string str delimiter vector =
     (let pos = string_find str delimiter 0 in
      if pos \<noteq> npos \<and> delimiter \<noteq> [] \<and> str \<noteq> []
      then split_string (drop (pos + length delimiter) str) delimiter (vector @ [take pos str])
      else vector @ [str])"
  by pat_completeness auto
termination
  by (relation "measure (\<lambda>(str, delimiter, vector). length str)") auto

declare split_string.simps [simp del]

record parser_space =
  dimensions :: "string list"

definition space_parse :: "parser_space \<Rightarrow> string \<Rightarrow> parser_space" where
  "space_parse sp space = sp\<lparr>dimensions := split_string space '','' (dimensions sp)\<rparr>"

record parser_constraint =
  constraints :: "string list"

definition constraint_parse :: "parser_constraint \<Rightarrow> string \<Rightarrow> error + parser_constraint" where
  "constraint_parse cst str =
     (if \<not> (str = []) = False then Inl AssertionFailed
      else Inr (cst\<lparr>constraints := split_string str ''and'' (constraints cst)\<rparr>))"

text \<open>
  \<^verbatim>\<open>class parser::map\<close>. The fields \<^verbatim>\<open>parameters\<close>, \<^verbatim>\<open>domain\<close>, \<^verbatim>\<open>range\<close> and \<^verbatim>\<open>constraints\<close>
  are \<open>map_parameters\<close>, \<open>map_domain\<close>, \<open>map_range\<close> and \<open>map_constraints\<close> here; each
  is default-constructed (empty) before the constructor body runs.
\<close>

record parser_map =
  map_parameters :: parser_space
  domain_name :: string
  range_name :: string
  map_domain :: parser_space
  map_range :: parser_space
  map_constraints :: parser_constraint

definition parser_map :: "string \<Rightarrow> error + parser_map" where
  "parser_map map_str =
     (let map_begin = to_int (size_t_add (string_find map_str ''{'' 0) 1);
          map_end = to_int (size_t_sub (string_find map_str ''}'' 0) 1)
      in
      if \<not> to_size_t map_begin \<noteq> npos then Inl AssertionFailed
      else if \<not> to_size_t map_end \<noteq> npos then Inl AssertionFailed
      else
      (let domain_space_begin =
             to_int (size_t_add (string_find map_str ''['' (to_size_t map_begin)) 1);
           domain_space_begin_pre_bracket =
             to_int (size_t_sub (string_find map_str ''['' (to_size_t map_begin)) 1);
           domain_space_end =
             to_int (size_t_sub (string_find map_str '']'' (to_size_t map_begin)) 1)
       in
       if \<not> to_size_t domain_space_begin \<noteq> npos then Inl AssertionFailed
       else if \<not> to_size_t domain_space_end \<noteq> npos then Inl AssertionFailed
       else
       bind_error (string_substr map_str (to_size_t map_begin)
                     (to_size_t (domain_space_begin_pre_bracket - map_begin + 1)))
         (\<lambda>domain_name'.
       bind_error (string_substr map_str (to_size_t domain_space_begin)
                     (to_size_t (domain_space_end - domain_space_begin + 1)))
         (\<lambda>domain_space_str.
       (let domain' = space_parse \<lparr>dimensions = []\<rparr> domain_space_str;
            pos_arrow = to_int (string_find map_str ''->'' (to_size_t domain_space_end));
            first_char_after_arrow = pos_arrow + 2
        in
        if \<not> to_size_t pos_arrow \<noteq> npos then Inl AssertionFailed
        else
        (let range_space_begin =
               to_int (size_t_add
                 (string_find map_str ''['' (to_size_t first_char_after_arrow)) 1);
             range_space_begin_pre_bracket =
               to_int (size_t_sub
                 (string_find map_str ''['' (to_size_t first_char_after_arrow)) 1);
             range_space_end =
               to_int (size_t_sub
                 (string_find map_str '']'' (to_size_t first_char_after_arrow)) 1)
         in
         if \<not> to_size_t range_space_begin \<noteq> npos then Inl AssertionFailed
         else if \<not> to_size_t range_space_end \<noteq> npos then Inl AssertionFailed
         else
         bind_error (string_substr map_str (to_size_t first_char_after_arrow)
                       (to_size_t (range_space_begin_pre_bracket - first_char_after_arrow + 1)))
           (\<lambda>range_name'.
         bind_error (string_substr map_str (to_size_t range_space_begin)
                       (to_size_t (range_space_end - range_space_begin + 1)))
           (\<lambda>range_space_str.
         (let range' = space_parse \<lparr>dimensions = []\<rparr> range_space_str;
              column_pos = to_int (size_t_add (string_find map_str '':'' 0) 1)
          in
          bind_error
            (if to_size_t column_pos \<noteq> npos
             then
               bind_error (string_substr map_str (to_size_t column_pos)
                             (to_size_t (map_end - column_pos + 1)))
                 (\<lambda>constraints_str.
                    constraint_parse \<lparr>constraints = []\<rparr> constraints_str)
             else Inr \<lparr>constraints = []\<rparr>)
            (\<lambda>constraints'.
               Inr \<lparr>map_parameters = \<lparr>dimensions = []\<rparr>,
                    domain_name = domain_name', range_name = range_name',
                    map_domain = domain', map_range = range',
                    map_constraints = constraints'\<rparr>))))))))))"

text \<open>
  A piece of a literal is plain when it holds none of the characters that structure the
  literal: braces, brackets, the colon, and the dash of the arrow.
\<close>

definition plain :: "string \<Rightarrow> bool" where
  "plain s = (set s \<inter> set ''{}[]:-'' = {})"

section \<open>AST generation for the library\<close>

text \<open>
  Modelled from the spec: a union set and a union relation of the Presburger library are
  finite unions of sets and of relations in named spaces, here lists. Intersecting the
  domain of a union relation with a union set keeps, in each relation, the pairs whose
  domain point lies in a set of the union that has the relation's domain space. A NULL
  argument gives a NULL result.
\<close>

type_synonym isl_union_set = "isl_set list"

type_synonym isl_union_map = "isl_map list"

definition isl_union_map_intersect_domain ::
  "isl_union_map option \<Rightarrow> isl_union_set option \<Rightarrow> isl_union_map option" where
  "isl_union_map_intersect_domain umap uset =
     (case (umap, uset) of
        (Some ms, Some ss) \<Rightarrow>
          Some (map (\<lambda>m. m\<lparr>map_pairs :=
                      {(x, y). (x, y) \<in> map_pairs m \<and>
                         (\<exists>s \<in> set ss. set_tuple_name s = in_tuple_name m
                            \<and> set_n_dim s = in_n_dim m \<and> x \<in> set_points s)}\<rparr>) ms)
      | _ \<Rightarrow> None)"

text \<open>
  The two callbacks declared at the head of core.h, and an AST build: the callbacks
  installed on it, none when it is allocated.
\<close>

datatype callback = for_code_generator_after_for | stmt_code_generator

record isl_ast_build =
  after_each_for :: "callback option"
  at_each_domain :: "callback option"

definition isl_ast_build_alloc :: isl_ast_build where
  "isl_ast_build_alloc = \<lparr>after_each_for = None, at_each_domain = None\<rparr>"

definition isl_ast_build_set_after_each_for :: "isl_ast_build \<Rightarrow> callback \<Rightarrow> isl_ast_build" where
  "isl_ast_build_set_after_each_for build fn = build\<lparr>after_each_for := Some fn\<rparr>"

definition isl_ast_build_set_at_each_domain :: "isl_ast_build \<Rightarrow> callback \<Rightarrow> isl_ast_build" where
  "isl_ast_build_set_at_each_domain build fn = build\<lparr>at_each_domain := Some fn\<rparr>"

definition isl_options_set_ast_build_atomic_upper_bound :: "isl_ctx \<Rightarrow> int \<Rightarrow> isl_ctx" where
  "isl_options_set_ast_build_atomic_upper_bound c val = c\<lparr>ast_build_atomic_upper_bound := val\<rparr>"

text \<open>
  What \<^verbatim>\<open>gen_isl_ast\<close> calls and the sources do not define is a parameter of it: the two
  getters of the library, \<^verbatim>\<open>get_time_processor_representation\<close> and
  \<^verbatim>\<open>get_time_processor_identity_relation\<close> (declared in core.h), and the AST generator of
  the polyhedral library, which reads the options of the context, the build and the
  schedule relation.
\<close>

record 'ast generation_env =
  library_time_processor_representation :: "'ast library \<Rightarrow> isl_union_set option"
  library_time_processor_identity_relation :: "'ast library \<Rightarrow> isl_union_map option"
  isl_ast_build_node_from_schedule_map ::
    "isl_ctx \<Rightarrow> isl_ast_build \<Rightarrow> isl_union_map option \<Rightarrow> 'ast option"

definition gen_isl_ast :: "'ast generation_env \<Rightarrow> 'ast library \<Rightarrow> error + 'ast library" where
  "gen_isl_ast env lib =
     (if \<not> library_time_processor_representation env lib \<noteq> None then Inl AssertionFailed
      else if \<not> library_time_processor_identity_relation env lib \<noteq> None
      then Inl AssertionFailed
      else
        (let ast_build = isl_ast_build_alloc;
             lib = lib\<lparr>ctx := isl_options_set_ast_build_atomic_upper_bound (ctx lib) 1\<rparr>;
             ast_build = isl_ast_build_set_after_each_for ast_build for_code_generator_after_for;
             ast_build = isl_ast_build_set_at_each_domain ast_build stmt_code_generator;
             sched = library_time_processor_identity_relation env lib;
             sched = isl_union_map_intersect_domain sched
                       (library_time_processor_representation env lib)
         in Inr (lib\<lparr>ast :=
                   isl_ast_build_node_from_schedule_map env (ctx lib) ast_build sched\<rparr>)))"

section \<open>The exhaustive state generator\<close>

text \<open>
  The header that declares \<^verbatim>\<open>ast_node\<close>, \<^verbatim>\<open>syntax_tree\<close> and \<^verbatim>\<open>optimization_info\<close> is not
  part of the sources; the types are taken from the use the generator makes of them. A
  node has the members the generator reads (\<open>node_name\<close> is the member \<^verbatim>\<open>name\<close>) and its
  other members as one value of a type parameter. A pointer to a node is the path that
  leads to it from the roots of its tree: the positions of the children to follow.
\<close>

datatype 'a ast_node =
  Ast_node (node_name: string) (low_bound: int) (up_bound: int) (unrolled: bool)
    (depth: int) (other_members: 'a) (children: "'a ast_node list")

type_synonym node_ptr = "nat list"

datatype optimization_type = FUSION | TILING | INTERCHANGE | UNROLLING

text \<open>
  A member of \<^verbatim>\<open>optimization_info\<close> that the generator does not assign is \<open>None\<close>; the
  vector \<^verbatim>\<open>comps\<close> is empty until something is pushed.
\<close>

record 'c optimization_info =
  optim_type :: optimization_type
  node :: node_ptr
  comps :: "'c list"
  nb_l :: "int option"
  l0 :: "int option"
  l1 :: "int option"
  l2 :: "int option"
  l0_fact :: "int option"
  l1_fact :: "int option"
  l2_fact :: "int option"

record ('a, 'c) syntax_tree =
  roots :: "'a ast_node list"
  optims_info :: "'c optimization_info list"

definition new_syntax_tree :: "('a, 'c) syntax_tree" where
  "new_syntax_tree = \<lparr>roots = [], optims_info = []\<rparr>"

definition new_optimization_info :: "optimization_type \<Rightarrow> node_ptr \<Rightarrow> 'c optimization_info" where
  "new_optimization_info t n =
     \<lparr>optim_type = t, node = n, comps = [], nb_l = None, l0 = None, l1 = None, l2 = None,
      l0_fact = None, l1_fact = None, l2_fact = None\<rparr>"

text \<open>
  Modelled from the spec: \<^verbatim>\<open>syntax_tree::copy_and_return_node\<close> is called by the generator
  and defined nowhere in the sources. The specification says that each candidate is a
  cloned syntax tree: the call copies the nodes of the tree into the new tree and returns
  the pointer to the copy of the given node, which is at the same path.
\<close>

definition copy_and_return_node ::
  "('a, 'c) syntax_tree \<Rightarrow> ('a, 'c) syntax_tree \<Rightarrow> node_ptr
     \<Rightarrow> ('a, 'c) syntax_tree \<times> node_ptr" where
  "copy_and_return_node ast' new_ast node_to_find = (new_ast\<lparr>roots := roots ast'\<rparr>, node_to_find)"

text \<open>
  The methods of \<^verbatim>\<open>ast_node\<close> that the generator calls and the sources do not define are
  parameters of the generator. \<open>get_all_computations\<close> pushes onto the vector it is given.
\<close>

record ('a, 'c) ast_node_methods =
  get_rightmost_computation :: "'a ast_node \<Rightarrow> 'c"
  get_leftmost_computation :: "'a ast_node \<Rightarrow> 'c"
  get_all_computations :: "'a ast_node \<Rightarrow> 'c list \<Rightarrow> 'c list"
  get_loop_levels_chain_depth :: "'a ast_node \<Rightarrow> int"
  get_extent :: "'a ast_node \<Rightarrow> int"

subsection \<open>Fusion\<close>

text \<open>
  \<^verbatim>\<open>generate_fusions\<close>: the loop over \<open>j\<close>, the loop over \<open>i\<close>, and the loop over the nodes
  of the level, which calls \<^verbatim>\<open>generate_fusions\<close> on the children of each. \<open>level\<close> is the
  pointer to the node whose children are \<open>tree_level\<close> (the empty path for the roots),
  so that \<open>level @ [i]\<close> is the pointer \<^verbatim>\<open>tree_level[i]\<close>.
\<close>

function fusions_loop_j ::
  "('a, 'c) ast_node_methods \<Rightarrow> node_ptr \<Rightarrow> 'a ast_node list \<Rightarrow> ('a, 'c) syntax_tree
     \<Rightarrow> nat \<Rightarrow> nat \<Rightarrow> ('a, 'c) syntax_tree list \<Rightarrow> ('a, 'c) syntax_tree list" where
  "fusions_loop_j M level tree_level ast' i j states =
     (if j < length tree_level then
        (if unrolled (tree_level ! j)
         then fusions_loop_j M level tree_level ast' i (j + 1) states
         else if node_name (tree_level ! i) = node_name (tree_level ! j)
                 \<and> low_bound (tree_level ! i) = low_bound (tree_level ! j)
                 \<and> up_bound (tree_level ! i) = up_bound (tree_level ! j)
         then
           (let (new_ast, new_node) =
                  copy_and_return_node ast' new_syntax_tree (level @ [i]);
                optim_info = new_optimization_info FUSION new_node;
                optim_info = optim_info\<lparr>comps := comps optim_info
                               @ [get_rightmost_computation M (tree_level ! i)]\<rparr>;
                optim_info = optim_info\<lparr>comps := comps optim_info
                               @ [get_leftmost_computation M (tree_level ! j)]\<rparr>;
                optim_info = optim_info\<lparr>nb_l := Some 2\<rparr>;
                optim_info = optim_info\<lparr>l0 := Some (int i)\<rparr>;
                optim_info = optim_info\<lparr>l1 := Some (int j)\<rparr>;
                optim_info = optim_info\<lparr>l0_fact := Some (depth (tree_level ! i))\<rparr>;
                new_ast = new_ast\<lparr>optims_info := optims_info new_ast @ [optim_info]\<rparr>
            in fusions_loop_j M level tree_level ast' i (j + 1) (states @ [new_ast]))
         else fusions_loop_j M level tree_level ast' i (j + 1) states)
      else states)"
  by pat_completeness auto
termination
  by (relation "measure (\<lambda>(M, level, tree_level, ast', i, j, states). length tree_level - j)")
     auto

declare fusions_loop_j.simps [simp del]

function fusions_loop_i ::
  "('a, 'c) ast_node_methods \<Rightarrow> node_ptr \<Rightarrow> 'a ast_node list \<Rightarrow> ('a, 'c) syntax_tree
     \<Rightarrow> nat \<Rightarrow> ('a, 'c) syntax_tree list \<Rightarrow> ('a, 'c) syntax_tree list" where
  "fusions_loop_i M level tree_level ast' i states =
     (if i < length tree_level then
        (if unrolled (tree_level ! i)
         then fusions_loop_i M level tree_level ast' (i + 1) states
         else fusions_loop_i M level tree_level ast' (i + 1)
                (fusions_loop_j M level tree_level ast' i (i + 1) states))
      else states)"
  by pat_completeness auto
termination
  by (relation "measure (\<lambda>(M, level, tree_level, ast', i, states). length tree_level - i)") auto

declare fusions_loop_i.simps [simp del]

fun generate_fusions ::
  "('a, 'c) ast_node_methods \<Rightarrow> node_ptr \<Rightarrow> 'a ast_node list \<Rightarrow> ('a, 'c) syntax_tree list
     \<Rightarrow> ('a, 'c) syntax_tree \<Rightarrow> ('a, 'c) syntax_tree list"
and fusions_for_each ::
  "('a, 'c) ast_node_methods \<Rightarrow> node_ptr \<Rightarrow> nat \<Rightarrow> 'a ast_node list
     \<Rightarrow> ('a, 'c) syntax_tree list \<Rightarrow> ('a, 'c) syntax_tree \<Rightarrow> ('a, 'c) syntax_tree list"
where
  "generate_fusions M level tree_level states ast' =
     fusions_for_each M level 0 tree_level
       (fusions_loop_i M level tree_level ast' 0 states) ast'"
| "fusions_for_each M level k [] states ast' = states"
| "fusions_for_each M level k (Ast_node nm lo up un d x cs # rest) states ast' =
     fusions_for_each M level (k + 1) rest
       (generate_fusions M (level @ [k]) cs states ast') ast'"

subsection \<open>Interchange\<close>




subsection \<open>What the generator is expected to emit\<close>

text \<open>
  The sibling list found by following a path from a list of nodes, and the node found by
  following a path from a node.
\<close>

fun level_at :: "'a ast_node list \<Rightarrow> node_ptr \<Rightarrow> 'a ast_node list option" where
  "level_at tree_level [] = Some tree_level"
| "level_at tree_level (k # r) =
     (if k < length tree_level then level_at (children (tree_level ! k)) r else None)"


text \<open>
  Two siblings at positions \<open>i\<close> and \<open>j\<close> of a level can be fused: \<open>i\<close> comes before \<open>j\<close>,
  neither is unrolled, and the iterator name and both bounds are the same.
\<close>

definition fusible :: "'a ast_node list \<Rightarrow> nat \<Rightarrow> nat \<Rightarrow> bool" where
  "fusible tree_level i j =
     (i < j \<and> j < length tree_level
      \<and> \<not> unrolled (tree_level ! i) \<and> \<not> unrolled (tree_level ! j)
      \<and> node_name (tree_level ! i) = node_name (tree_level ! j)
      \<and> low_bound (tree_level ! i) = low_bound (tree_level ! j)
      \<and> up_bound (tree_level ! i) = up_bound (tree_level ! j))"

text \<open>The candidate for a pair: the cloned tree and its single record.\<close>

definition fusion_candidate ::
  "('a, 'c) ast_node_methods \<Rightarrow> ('a, 'c) syntax_tree
     \<Rightarrow> node_ptr \<times> 'a ast_node list \<times> nat \<times> nat \<Rightarrow> ('a, 'c) syntax_tree" where
  "fusion_candidate M ast' = (\<lambda>(level, tree_level, i, j).
     \<lparr>roots = roots ast',
      optims_info =
        [\<lparr>optim_type = FUSION, node = level @ [i],
          comps = [get_rightmost_computation M (tree_level ! i),
                   get_leftmost_computation M (tree_level ! j)],
          nb_l = Some 2, l0 = Some (int i), l1 = Some (int j), l2 = None,
          l0_fact = Some (depth (tree_level ! i)), l1_fact = None, l2_fact = None\<rparr>]\<rparr>)"

text \<open>
  The fusible pairs of a level, and those of all the levels of a forest, each with the
  pointer to its level, level by level from the top.
\<close>

definition level_fusions ::
  "node_ptr \<Rightarrow> 'a ast_node list \<Rightarrow> (node_ptr \<times> 'a ast_node list \<times> nat \<times> nat) list" where
  "level_fusions level tree_level =
     concat (map (\<lambda>i. map (\<lambda>j. (level, tree_level, i, j))
                          (filter (fusible tree_level i) [Suc i..<length tree_level]))
                 [0..<length tree_level])"

fun tree_fusions ::
  "node_ptr \<Rightarrow> 'a ast_node list \<Rightarrow> (node_ptr \<times> 'a ast_node list \<times> nat \<times> nat) list"
and tree_fusions_from ::
  "node_ptr \<Rightarrow> nat \<Rightarrow> 'a ast_node list \<Rightarrow> (node_ptr \<times> 'a ast_node list \<times> nat \<times> nat) list"
where
  "tree_fusions level tree_level =
     level_fusions level tree_level @ tree_fusions_from level 0 tree_level"
| "tree_fusions_from level k [] = []"
| "tree_fusions_from level k (Ast_node nm lo up un d x cs # rest) =
     tree_fusions (level @ [k]) cs @ tree_fusions_from level (k + 1) rest"





section \<open>Example values\<close>

definition set_S0 :: isl_set where
  "set_S0 = \<lparr>set_tuple_name = Some ''S0'', set_n_dim = 1, set_points = {[0], [1]}\<rparr>"

definition map_S0 :: isl_map where
  "map_S0 = \<lparr>in_tuple_name = Some ''S0'', in_n_dim = 1, out_tuple_name = Some ''S0'',
             out_n_dim = 1, map_pairs = {([0], [0]), ([1], [1])}\<rparr>"

definition comp_S0 :: "(int, unit, unit) computation" where
  "comp_S0 = \<lparr>time_processor_space = None, iter_space = Some set_S0, schedule = Some map_S0,
              fct = 0, name = ''S0'', expression = 3, stmt = None, access = None,
              index_expr = None\<rparr>"

definition set_S2 :: isl_set where
  "set_S2 = \<lparr>set_tuple_name = Some ''S0'', set_n_dim = 2, set_points = {[0, 0], [5, 7]}\<rparr>"

definition map_S2 :: isl_map where
  "map_S2 = \<lparr>in_tuple_name = Some ''S0'', in_n_dim = 2, out_tuple_name = Some ''S0'',
             out_n_dim = 2, map_pairs = {([0, 0], [0, 0]), ([5, 7], [5, 7])}\<rparr>"

definition comp_S2 :: "(int, unit, unit) computation" where
  "comp_S2 = \<lparr>time_processor_space = None, iter_space = Some set_S2, schedule = Some map_S2,
              fct = 0, name = ''S0'', expression = 3, stmt = None, access = None,
              index_expr = None\<rparr>"

definition map_T :: isl_map where
  "map_T = \<lparr>in_tuple_name = Some ''T'', in_n_dim = 1, out_tuple_name = Some ''T'',
            out_n_dim = 1, map_pairs = {([0], [0]), ([1], [1])}\<rparr>"

text \<open>
  An instance of the textual interface that knows one set and one relation, for
  evaluating the constructor.
\<close>

definition isl_S0 :: isl_text where
  "isl_S0 =
     \<lparr>isl_set_read_from_str = (\<lambda>s. if s = ''{S0[i]: 0<=i<=1}'' then Some set_S0 else None),
      isl_map_read_from_str =
        (\<lambda>s. if s = ''{ S0[i]  ->  S0[i] : 0 <= i <= 1 }'' then Some map_S0 else None),
      isl_set_to_str = (\<lambda>s. ''{ S0[i] : 0 <= i <= 1 }'')\<rparr>"

definition function0 :: coli_function where
  "function0 = \<lparr>library = Some 0, fct_name = ''function0'', body = []\<rparr>"

definition map_S0_T :: isl_map where
  "map_S0_T = \<lparr>in_tuple_name = Some ''S0'', in_n_dim = 1, out_tuple_name = Some ''T'',
               out_n_dim = 1, map_pairs = {([0], [0]), ([1], [1])}\<rparr>"

definition no_computations :: "string \<rightharpoonup> nat" where
  "no_computations = Map.empty"

text \<open>
  An environment for evaluating \<open>gen_isl_ast\<close>: a library with the one computation
  \<open>comp_S0\<close>, and a generator that returns what it was given.
\<close>

definition identity_S0 :: isl_map where
  "identity_S0 = \<lparr>in_tuple_name = Some ''S0'', in_n_dim = 1, out_tuple_name = Some [],
                  out_n_dim = 1, map_pairs = Id_on {x. length x = 1}\<rparr>"

definition env0 :: "(isl_ctx \<times> isl_ast_build \<times> isl_union_map option) generation_env" where
  "env0 = \<lparr>library_time_processor_representation = (\<lambda>lib. Some [set_S0]),
           library_time_processor_identity_relation = (\<lambda>lib. Some [identity_S0]),
           isl_ast_build_node_from_schedule_map = (\<lambda>c b m. Some (c, b, m))\<rparr>"

definition library1 :: "(isl_ctx \<times> isl_ast_build \<times> isl_union_map option) library" where
  "library1 = \<lparr>lib_name = ''library0'', lib_functions = [0],
               ctx = \<lparr>ast_build_atomic_upper_bound = 0\<rparr>, ast = None,
               parallel_dimensions = [''S0'' \<mapsto> 1], vector_dimensions = Map.empty\<rparr>"

text \<open>
  Methods for evaluating the generator on examples; the methods of the sources are not
  available. Here the other members of a node are the names of the computations placed
  at the node, the computations of a node are its own followed by those of its children,
  the chain of loop levels of a node goes down as long as a node is not unrolled and has
  exactly one child, and the extent of a node is the difference of its bounds.
\<close>

fun all_computations :: "string list ast_node \<Rightarrow> string list" where
  "all_computations (Ast_node nm lo up un d x cs) = x @ concat (map all_computations cs)"

fun loop_levels_chain_depth :: "'a ast_node \<Rightarrow> int" where
  "loop_levels_chain_depth (Ast_node nm lo up un d x cs) =
     (if un then d + 1
      else (case cs of [c] \<Rightarrow> loop_levels_chain_depth c | _ \<Rightarrow> d + 1))"

definition example_methods :: "(string list, string) ast_node_methods" where
  "example_methods =
     \<lparr>get_rightmost_computation = (\<lambda>n. last ([] # all_computations n)),
      get_leftmost_computation = (\<lambda>n. hd (all_computations n @ [[]])),
      get_all_computations = (\<lambda>n comps. comps @ all_computations n),
      get_loop_levels_chain_depth = loop_levels_chain_depth,
      get_extent = (\<lambda>n. up_bound n - low_bound n)\<rparr>"

text \<open>
  A forest with two levels that hold a fusible pair each: the two roots, and the two
  children of the first root.
\<close>

definition tree_fusible :: "(string list, string) syntax_tree" where
  "tree_fusible =
     \<lparr>roots =
        [Ast_node ''i'' 0 10 False 0 []
           [Ast_node ''j'' 0 5 False 1 [''C''] [], Ast_node ''j'' 0 5 False 1 [''D''] []],
         Ast_node ''i'' 0 10 False 0 [''B''] []],
      optims_info = []\<rparr>"



section \<open>Properties\<close>

subsection \<open>Tags\<close>

text \<open>
  C10. In every state of a library and for every computation name, \<open>parallelize\<close> answers
  true for at most one level and \<open>vectorize\<close> answers true for at most one level: a tag
  map holds one level per name. Tagging a level for a name makes that level the only one
  for which the query answers true, whatever level was recorded before.
\<close>

theorem tag_maps_single_level:
  "(parallelize lib c l = Inr True \<and> parallelize lib c l' = Inr True \<longrightarrow> l = l')
   \<and> (vectorize lib c l = Inr True \<and> vectorize lib c l' = Inr True \<longrightarrow> l = l')
   \<and> (length c > 0 \<and> l \<ge> 0 \<longrightarrow>
        parallelize (add_parallel_dimension c n lib) c l = Inr (n = l)
        \<and> vectorize (add_vector_dimension c n lib) c l = Inr (n = l))"
  by (auto simp: parallelize_def vectorize_def add_parallel_dimension_def
        add_vector_dimension_def split: option.splits if_splits)

theorem tag_maps_single_level_witness:
  "parallelize library0 ''S0'' 1 = Inr True
   \<and> vectorize library0 ''S0'' 3 = Inr True
   \<and> length ''S0'' > 0 \<and> (1::int) \<ge> 0
   \<and> parallelize (add_parallel_dimension ''S0'' 2 library0) ''S0'' 1 = Inr False
   \<and> vectorize (add_vector_dimension ''S0'' 2 library0) ''S0'' 1 = Inr False"
  using tag_maps_single_level [of library0 "''S0''" 1 1 2]
  by (simp add: parallelize_def vectorize_def library0_def)

subsection \<open>Time-processor lowering\<close>

text \<open>
  C4. For a computation whose iteration space and schedule are both set,
  \<open>gen_time_processor_IR\<close> succeeds and makes the time-processor representation the
  result of applying the schedule to the iteration set, which for compatible spaces is
  the image of the points of the iteration set under the pairs of the schedule; the
  iteration set and the schedule are left as they were.
\<close>

theorem gen_time_processor_IR_apply:
  assumes "iter_space c = Some s" and "schedule c = Some m"
  shows "gen_time_processor_IR c = Inr (c\<lparr>time_processor_space := isl_set_apply s m\<rparr>)
     \<and> (\<forall>c'. gen_time_processor_IR c = Inr c' \<longrightarrow>
            time_processor_space c' = isl_set_apply s m
            \<and> iter_space c' = iter_space c \<and> schedule c' = schedule c)
     \<and> (set_tuple_name s = in_tuple_name m \<and> set_n_dim s = in_n_dim m \<longrightarrow>
          map_option set_points (isl_set_apply s m)
            = Some {y. \<exists>x \<in> set_points s. (x, y) \<in> map_pairs m})"
  using assms
  by (auto simp: gen_time_processor_IR_def get_iteration_space_representation_def
        get_schedule_def bind_error_def isl_set_apply_def)

theorem gen_time_processor_IR_apply_witness:
  "iter_space comp_S0 = Some set_S0 \<and> schedule comp_S0 = Some map_S0
   \<and> set_tuple_name set_S0 = in_tuple_name map_S0 \<and> set_n_dim set_S0 = in_n_dim map_S0
   \<and> gen_time_processor_IR comp_S0 = Inr (comp_S0\<lparr>time_processor_space := Some set_S0\<rparr>)"
proof -
  have a: "iter_space comp_S0 = Some set_S0" and b: "schedule comp_S0 = Some map_S0"
    by (simp_all add: comp_S0_def)
  have "isl_set_apply set_S0 map_S0 = Some set_S0"
    by (auto simp: isl_set_apply_def set_S0_def map_S0_def)
  with gen_time_processor_IR_apply [OF a b] a b show ?thesis
    by (simp add: set_S0_def map_S0_def)
qed

text \<open>
  C5. For a computation whose time-processor representation has been computed,
  \<open>get_time_processor_identity_relation\<close> returns the identity relation on the space of
  that representation (every point of the space paired with itself), with the range
  tuple named by the empty string, and leaves the computation as it was.
\<close>

theorem time_processor_identity_relation:
  assumes "time_processor_space c = Some tp"
  shows "get_time_processor_identity_relation c =
           Inr (\<lparr>in_tuple_name = set_tuple_name tp, in_n_dim = set_n_dim tp,
                 out_tuple_name = Some [], out_n_dim = set_n_dim tp,
                 map_pairs = Id_on {x. length x = set_n_dim tp}\<rparr>, c)"
  using assms
  by (auto simp: get_time_processor_identity_relation_def get_time_processor_representation_def
        isl_set_get_space_def isl_space_map_from_set_def isl_map_identity_def
        isl_map_set_tuple_name_def Id_on_def)

theorem time_processor_identity_relation_witness:
  "time_processor_space (comp_S0\<lparr>time_processor_space := Some set_S0\<rparr>) = Some set_S0
   \<and> get_time_processor_identity_relation (comp_S0\<lparr>time_processor_space := Some set_S0\<rparr>) =
       Inr (\<lparr>in_tuple_name = Some ''S0'', in_n_dim = 1,
             out_tuple_name = Some [], out_n_dim = 1,
             map_pairs = Id_on {x. length x = 1}\<rparr>,
            comp_S0\<lparr>time_processor_space := Some set_S0\<rparr>)"
  using time_processor_identity_relation
          [of "comp_S0\<lparr>time_processor_space := Some set_S0\<rparr>" set_S0]
  by (simp add: set_S0_def)

subsection \<open>Schedule algebra\<close>

lemma split_split_interchange_point:
  assumes "Suc d < length y"
  shows "interchange_point (Suc d) (Suc (Suc d))
           (split_point (Suc (Suc d)) f2 (split_point d f1 y))
         = tile_point d (Suc d) f1 f2 y"
proof -
  have "y = take d y @ y ! d # drop (Suc d) y"
    by (rule id_take_nth_drop) (use assms in simp)
  moreover have "drop (Suc d) y = y ! Suc d # drop (Suc (Suc d)) y"
    using assms by (simp add: Cons_nth_drop_Suc)
  moreover have "length (take d y) = d"
    using assms by simp
  ultimately obtain ys a b zs where y: "y = ys @ a # b # zs" and d: "length ys = d"
    by metis
  show ?thesis
    by (simp add: y d [symmetric] split_point_def interchange_point_def tile_point_def
          nth_append list_update_append)
qed

lemma tile_pairs_eq:
  assumes "range_points_wf m" and "Suc n < out_n_dim m"
  shows "apsnd (tile_point n (Suc n) f1 f2) ` map_pairs m
       = apsnd (interchange_point (Suc n) (Suc (Suc n))
                 \<circ> (split_point (Suc (Suc n)) f2 \<circ> split_point n f1)) ` map_pairs m"
  using assms
  by (intro image_cong) (auto simp: range_points_wf_def split_split_interchange_point)

lemma tile_eq_sequence:
  assumes wf: "\<forall>m. schedule c = Some m \<longrightarrow> range_points_wf m"
    and f: "0 < f1" "0 < f2"
  shows "tile c d (d + 1) f1 f2 = split_split_interchange c d f1 f2"
proof (cases "schedule c")
  case None
  then show ?thesis
    by (simp add: tile_def split_split_interchange_def split_def bind_error_def)
next
  case (Some m)
  with wf have wfm: "range_points_wf m" by simp
  consider (neg) "d < 0" | (big) "int (out_n_dim m) \<le> d"
    | (last) "0 \<le> d" "d + 1 = int (out_n_dim m)" | (ok) "0 \<le> d" "d + 1 < int (out_n_dim m)"
    by linarith
  then show ?thesis
  proof cases
    case neg
    then show ?thesis using Some
      by (simp add: tile_def split_split_interchange_def split_def bind_error_def)
  next
    case big
    then show ?thesis using Some
      by (simp add: tile_def split_split_interchange_def split_def bind_error_def)
  next
    case last
    define c1 where "c1 = c\<lparr>schedule :=
        Some (map_range_points (split_point (nat d) f1) (out_n_dim m + 1) m)\<rparr>"
    have s1: "split c d f1 = Inr c1"
      using Some f last by (simp add: split_def c1_def)
    have s2: "split c1 (d + 2) f2 = Inl InvalidLevel"
      using last by (simp add: split_def c1_def map_range_points_def)
    have t: "tile c d (d + 1) f1 f2 = Inl InvalidLevel"
      using Some last by (simp add: tile_def)
    show ?thesis
      by (simp add: t split_split_interchange_def s1 s2 bind_error_def)
  next
    case ok
    define n where "n = nat d"
    have d: "d = int n" and n: "Suc n < out_n_dim m" using ok by (auto simp: n_def)
    have n1: "nat (int n + 1) = Suc n" and n2: "nat (int n + 2) = Suc (Suc n)" by simp_all
    define c1 where "c1 = c\<lparr>schedule :=
        Some (map_range_points (split_point n f1) (out_n_dim m + 1) m)\<rparr>"
    define c2 where "c2 = c\<lparr>schedule :=
        Some (map_range_points (split_point (Suc (Suc n)) f2 \<circ> split_point n f1)
                (out_n_dim m + 2) m)\<rparr>"
    define c3 where "c3 = c\<lparr>schedule :=
        Some (map_range_points (interchange_point (Suc n) (Suc (Suc n))
                \<circ> (split_point (Suc (Suc n)) f2 \<circ> split_point n f1))
                (out_n_dim m + 2) m)\<rparr>"
    have s1: "split c d f1 = Inr c1"
      using Some f n by (simp add: split_def c1_def d)
    have s2: "split c1 (d + 2) f2 = Inr c2"
      using f n
      by (simp add: split_def c1_def c2_def d n2 map_range_points_def image_image apsnd_compose)
    have s3: "interchange c2 (d + 1) (d + 2) = Inr c3"
      using n
      by (simp add: interchange_def c2_def c3_def d n1 n2 map_range_points_def image_image
            apsnd_compose)
    have t: "tile c d (d + 1) f1 f2 = Inr c3"
      using Some f n
      by (simp add: tile_def c3_def d n1 map_range_points_def tile_pairs_eq [OF wfm n])
    show ?thesis
      by (simp add: t split_split_interchange_def s1 s2 s3 bind_error_def)
  qed
qed

text \<open>
  C2. For every level \<open>d\<close> and positive factors \<open>f1\<close>, \<open>f2\<close>, \<open>tile(d, d + 1, f1, f2)\<close> and
  the sequence \<open>split(d, f1); split(d + 2, f2); interchange(d + 1, d + 2)\<close> fail together
  or produce the same schedule, so that the two schedules have the same image on every
  iteration set. The schedule's range points have the schedule's range dimension.
\<close>

theorem tile_equals_two_splits_interchange:
  assumes wf: "\<forall>m. schedule c = Some m \<longrightarrow> range_points_wf m"
    and f: "0 < f1" "0 < f2"
  shows "tile c d (d + 1) f1 f2 = split_split_interchange c d f1 f2
       \<and> (\<forall>c1 c2 s. tile c d (d + 1) f1 f2 = Inr c1
             \<and> split_split_interchange c d f1 f2 = Inr c2 \<longrightarrow>
            (\<exists>m1 m2. schedule c1 = Some m1 \<and> schedule c2 = Some m2
               \<and> isl_set_apply s m1 = isl_set_apply s m2))"
proof -
  have eq: "tile c d (d + 1) f1 f2 = split_split_interchange c d f1 f2"
    by (rule tile_eq_sequence [OF assms])
  have "\<exists>m. schedule c1 = Some m" if "tile c d (d + 1) f1 f2 = Inr c1" for c1
    using that by (auto simp: tile_def split: option.splits if_splits)
  with eq show ?thesis by auto
qed

theorem tile_equals_two_splits_interchange_witness:
  "schedule comp_S2 = Some map_S2 \<and> range_points_wf map_S2 \<and> (0::int) < 2 \<and> (0::int) < 3
   \<and> split_split_interchange comp_S2 0 2 3
       = Inr (comp_S2\<lparr>schedule := Some (map_S2\<lparr>out_n_dim := 4,
                map_pairs := {([0, 0], [0, 0, 0, 0]), ([5, 7], [2, 2, 1, 1])}\<rparr>)\<rparr>)
   \<and> tile comp_S2 0 (0 + 1) 2 3 = split_split_interchange comp_S2 0 2 3"
proof -
  have wf: "\<forall>m. schedule comp_S2 = Some m \<longrightarrow> range_points_wf m"
    by (simp add: comp_S2_def map_S2_def range_points_wf_def)
  have t: "tile comp_S2 0 (0 + 1) 2 3
       = Inr (comp_S2\<lparr>schedule := Some (map_S2\<lparr>out_n_dim := 4,
                map_pairs := {([0, 0], [0, 0, 0, 0]), ([5, 7], [2, 2, 1, 1])}\<rparr>)\<rparr>)"
    by (simp add: tile_def comp_S2_def map_S2_def map_range_points_def tile_point_def)
  have s: "schedule comp_S2 = Some map_S2" "range_points_wf map_S2"
    by (simp_all add: comp_S2_def map_S2_def range_points_wf_def)
  from tile_equals_two_splits_interchange [OF wf, of 2 3 0] t s show ?thesis
    by simp
qed

subsection \<open>The literal parser\<close>

lemma find_aux_char:
  "c \<notin> set xs \<Longrightarrow> find_aux [c] (xs @ c # b) k = k + length xs"
  by (induction xs arbitrary: k) auto

lemma string_find_char:
  assumes "pos \<le> length a" and "c \<notin> set (drop pos a)"
  shows "string_find (a @ c # b) [c] pos = length a"
  using assms find_aux_char [of c "drop pos a" b pos]
  by (simp add: string_find_def)

lemma find_aux_arrow:
  "CHR ''-'' \<notin> set xs \<Longrightarrow> find_aux ''->'' (xs @ ''->'' @ b) k = k + length xs"
  by (induction xs arbitrary: k) auto

lemma string_find_arrow:
  assumes "pos \<le> length a" and "CHR ''-'' \<notin> set (drop pos a)"
  shows "string_find (a @ ''->'' @ b) ''->'' pos = length a"
  using assms find_aux_arrow [of "drop pos a" b pos]
  by (simp add: string_find_def)

lemma string_substr_middle:
  "string_substr (a @ m @ b) (length a) (length m) = Inr m"
  by (simp add: string_substr_def)

lemma to_int_small: "n < 2 ^ 31 \<Longrightarrow> to_int n = int n"
  by (simp add: to_int_def)

lemma size_t_add_small: "a + b < 2 ^ 64 \<Longrightarrow> size_t_add a b = a + b"
  by (simp add: size_t_add_def)

lemma size_t_sub_small: "b \<le> a \<Longrightarrow> a < 2 ^ 64 \<Longrightarrow> size_t_sub a b = a - b"
  by (simp add: size_t_sub_def nat_mod_distrib of_nat_diff flip: of_nat_diff)

lemma to_size_t_int: "n < 2 ^ 64 \<Longrightarrow> to_size_t (int n) = n"
  by (simp add: to_size_t_def)


lemma to_size_t_nonneg: "0 \<le> i \<Longrightarrow> i < 2 ^ 64 \<Longrightarrow> to_size_t i = nat i"
  by (simp add: to_size_t_def)

lemma split_string_found:
  "string_find str d 0 \<noteq> npos \<Longrightarrow> d \<noteq> [] \<Longrightarrow> str \<noteq> [] \<Longrightarrow>
   split_string str d v =
     split_string (drop (string_find str d 0 + length d) str) d
       (v @ [take (string_find str d 0) str])"
  by (subst split_string.simps) (simp add: Let_def)

lemma split_string_not_found:
  "string_find str d 0 = npos \<or> d = [] \<or> str = [] \<Longrightarrow> split_string str d v = v @ [str]"
  by (subst split_string.simps) (auto simp: Let_def)

lemmas parser_eval = parser_map_def to_int_def to_size_t_def size_t_add_def size_t_sub_def
  string_find_def string_substr_def npos_def bind_error_def space_parse_def
  constraint_parse_def Let_def split_string_found split_string_not_found

text \<open>
  C7, as stated, fails on the set form: the constructor asserts that the text has an
  arrow after the domain tuple, and a set literal has none.
\<close>

theorem parser_map_set_form_counterexample:
  "parser_map ''{S0[i,j]: 0<=i<=1000 and 0<=j<=1000}'' = Inl AssertionFailed"
  by (simp add: parser_eval)

text \<open>
  Two more evaluations of the constructor. A parameter list before the opening brace is
  skipped: the field \<open>parameters\<close> stays empty. On a map literal without a constraint
  part, the position after the colon is computed from \<open>npos\<close> before it is compared with
  \<open>npos\<close>, so the comparison never fails and the constraint list receives the text that
  precedes the closing brace.
\<close>

lemma parser_map_parameters_example:
  "parser_map ''[N]->{S0[i,j]->S0[j,i]: 0<=i<N}'' =
     Inr \<lparr>map_parameters = \<lparr>dimensions = []\<rparr>, domain_name = ''S0'', range_name = ''S0'',
          map_domain = \<lparr>dimensions = [''i'', ''j'']\<rparr>,
          map_range = \<lparr>dimensions = [''j'', ''i'']\<rparr>,
          map_constraints = \<lparr>constraints = ['' 0<=i<N'']\<rparr>\<rparr>"
  by (simp add: parser_eval)

lemma parser_map_no_constraints_example:
  "parser_map ''{S0[i,j]->buf0[i, j]}'' =
     Inr \<lparr>map_parameters = \<lparr>dimensions = []\<rparr>, domain_name = ''S0'', range_name = ''buf0'',
          map_domain = \<lparr>dimensions = [''i'', ''j'']\<rparr>,
          map_range = \<lparr>dimensions = [''i'', '' j'']\<rparr>,
          map_constraints = \<lparr>constraints = [''{S0[i,j]->buf0[i, j]'']\<rparr>\<rparr>"
  by (simp add: parser_eval)

text \<open>
  The map form with a constraint part, \<open>pre {dn[dd] sp1 -> rn[rd] sp2 : cs} post\<close>: the
  positions that the constructor computes, and the pieces that it cuts out.
\<close>

lemma parser_map_map_form:
  fixes pre dn dd sp1 rn rd sp2 cs post :: string
  assumes form: "map_str = pre @ ''{'' @ dn @ ''['' @ dd @ '']'' @ sp1 @ ''->'' @ rn @ ''[''
                   @ rd @ '']'' @ sp2 @ '':'' @ cs @ ''}'' @ post"
    and pre: "set pre \<inter> set ''{}:'' = {}"
    and pl: "plain dn" "plain dd" "plain sp1" "plain rn" "plain rd" "plain sp2"
    and cs: "CHR ''}'' \<notin> set cs" "cs \<noteq> []"
    and len: "length map_str < 2 ^ 31"
  shows "parser_map map_str =
     Inr \<lparr>map_parameters = \<lparr>dimensions = []\<rparr>, domain_name = dn, range_name = rn,
          map_domain = \<lparr>dimensions = split_string dd '','' []\<rparr>,
          map_range = \<lparr>dimensions = split_string rd '','' []\<rparr>,
          map_constraints = \<lparr>constraints = split_string cs ''and'' []\<rparr>\<rparr>"
proof -
  define a2 where "a2 = pre @ ''{'' @ dn"
  define a3 where "a3 = a2 @ ''['' @ dd"
  define a4 where "a4 = a3 @ '']'' @ sp1"
  define a5 where "a5 = a4 @ ''->'' @ rn"
  define a6 where "a6 = a5 @ ''['' @ rd"
  define a7 where "a7 = a6 @ '']'' @ sp2"
  define a8 where "a8 = a7 @ '':'' @ cs"
  note a_defs = a2_def a3_def a4_def a5_def a6_def a7_def a8_def
  define p_lb where "p_lb = length pre"
  define p_br1 where "p_br1 = length a2"
  define p_cl1 where "p_cl1 = length a3"
  define p_ar where "p_ar = length a4"
  define p_br2 where "p_br2 = length a5"
  define p_cl2 where "p_cl2 = length a6"
  define p_col where "p_col = length a7"
  define p_rb where "p_rb = length a8"
  note p_defs = p_lb_def p_br1_def p_cl1_def p_ar_def p_br2_def p_cl2_def p_col_def p_rb_def
  have order: "p_br1 = p_lb + 1 + length dn" "p_cl1 = p_br1 + 1 + length dd"
    "p_ar = p_cl1 + 1 + length sp1" "p_br2 = p_ar + 2 + length rn"
    "p_cl2 = p_br2 + 1 + length rd" "p_col = p_cl2 + 1 + length sp2"
    "p_rb = p_col + 1 + length cs" "p_rb < 2 ^ 31"
    using len by (simp_all add: p_defs a_defs form)
  have plain_chars: "\<And>s c. plain s \<Longrightarrow> c \<in> set ''{}[]:-'' \<Longrightarrow> c \<notin> set s"
    by (auto simp: plain_def)
  have f1: "string_find map_str ''{'' 0 = p_lb"
  proof -
    have "CHR ''{'' \<notin> set pre" using pre by auto
    then show ?thesis
      unfolding p_lb_def using string_find_char [of 0 pre "CHR ''{''"] by (simp add: form)
  qed
  have f2: "string_find map_str ''}'' 0 = p_rb"
  proof -
    have "map_str = a8 @ CHR ''}'' # post" by (simp add: form a_defs)
    moreover have "CHR ''}'' \<notin> set a8"
      using pre pl cs(1) by (auto simp: a_defs plain_def)
    ultimately show ?thesis
      unfolding p_rb_def using string_find_char [of 0 a8 "CHR ''}''" post] by simp
  qed
  have f8: "string_find map_str '':'' 0 = p_col"
  proof -
    have "map_str = a7 @ CHR '':'' # cs @ ''}'' @ post" by (simp add: form a_defs)
    moreover have "CHR '':'' \<notin> set a7"
      using pre pl by (auto simp: a_defs plain_def)
    ultimately show ?thesis
      unfolding p_col_def using string_find_char [of 0 a7 "CHR '':''"] by simp
  qed
  have f3: "string_find map_str ''['' (Suc p_lb) = p_br1"
  proof -
    have "map_str = a2 @ CHR ''['' # dd @ '']'' @ sp1 @ ''->'' @ rn @ ''['' @ rd @ '']'' @ sp2
        @ '':'' @ cs @ ''}'' @ post"
      by (simp add: form a_defs)
    moreover have "CHR ''['' \<notin> set (drop (Suc p_lb) a2)"
      using pl(1) by (auto simp: a_defs p_lb_def plain_def)
    moreover have "Suc p_lb \<le> length a2" by (simp add: a_defs p_lb_def)
    ultimately show ?thesis
      unfolding p_br1_def using string_find_char [of "Suc p_lb" a2 "CHR ''[''"] by simp
  qed
  have f4: "string_find map_str '']'' (Suc p_lb) = p_cl1"
  proof -
    have "map_str = a3 @ CHR '']'' # sp1 @ ''->'' @ rn @ ''['' @ rd @ '']'' @ sp2
        @ '':'' @ cs @ ''}'' @ post"
      by (simp add: form a_defs)
    moreover have "CHR '']'' \<notin> set (drop (Suc p_lb) a3)"
      using pl(1,2) by (auto simp: a_defs p_lb_def plain_def)
    moreover have "Suc p_lb \<le> length a3" by (simp add: a_defs p_lb_def)
    ultimately show ?thesis
      unfolding p_cl1_def using string_find_char [of "Suc p_lb" a3 "CHR '']''"] by simp
  qed
  have f5: "string_find map_str ''->'' (p_cl1 - 1) = p_ar"
  proof -
    have "map_str = a4 @ ''->'' @ rn @ ''['' @ rd @ '']'' @ sp2 @ '':'' @ cs @ ''}'' @ post"
      by (simp add: form a_defs)
    moreover have "drop (p_cl1 - 1) a4 = drop (length dd) (''['' @ dd @ '']'' @ sp1)"
      by (simp add: a_defs p_cl1_def)
    then have "CHR ''-'' \<notin> set (drop (p_cl1 - 1) a4)"
      using pl(2,3) by (auto simp: plain_def dest: in_set_dropD)
    moreover have "p_cl1 - 1 \<le> length a4" by (simp add: a_defs p_cl1_def)
    ultimately show ?thesis
      unfolding p_ar_def using string_find_arrow [of "p_cl1 - 1" a4] by simp
  qed
  have f6: "string_find map_str ''['' (p_ar + 2) = p_br2"
  proof -
    have "map_str = a5 @ CHR ''['' # rd @ '']'' @ sp2 @ '':'' @ cs @ ''}'' @ post"
      by (simp add: form a_defs)
    moreover have "drop (p_ar + 2) a5 = rn" by (simp add: a5_def p_ar_def)
    then have "CHR ''['' \<notin> set (drop (p_ar + 2) a5)"
      using pl(4) by (auto simp: plain_def)
    moreover have "p_ar + 2 \<le> length a5" by (simp add: a_defs p_ar_def)
    ultimately show ?thesis
      unfolding p_br2_def using string_find_char [of "p_ar + 2" a5 "CHR ''[''"] by simp
  qed
  have f7: "string_find map_str '']'' (p_ar + 2) = p_cl2"
  proof -
    have "map_str = a6 @ CHR '']'' # sp2 @ '':'' @ cs @ ''}'' @ post"
      by (simp add: form a_defs)
    moreover have "drop (p_ar + 2) a6 = rn @ ''['' @ rd" by (simp add: a6_def a5_def p_ar_def)
    then have "CHR '']'' \<notin> set (drop (p_ar + 2) a6)"
      using pl(4,5) by (auto simp: plain_def)
    moreover have "p_ar + 2 \<le> length a6" by (simp add: a_defs p_ar_def)
    ultimately show ?thesis
      unfolding p_cl2_def using string_find_char [of "p_ar + 2" a6 "CHR '']''"] by simp
  qed
  have s1: "string_substr map_str (Suc p_lb) (length dn) = Inr dn"
    using string_substr_middle [of "pre @ ''{''" dn] by (simp add: form p_lb_def)
  have s2: "string_substr map_str (Suc p_br1) (length dd) = Inr dd"
    using string_substr_middle [of "a2 @ ''[''" dd] by (simp add: form a_defs p_br1_def)
  have s3: "string_substr map_str (p_ar + 2) (length rn) = Inr rn"
    using string_substr_middle [of "a4 @ ''->''" rn] by (simp add: form a_defs p_ar_def)
  have s4: "string_substr map_str (Suc p_br2) (length rd) = Inr rd"
    using string_substr_middle [of "a5 @ ''[''" rd] by (simp add: form a_defs p_br2_def)
  have s5: "string_substr map_str (Suc p_col) (length cs) = Inr cs"
    using string_substr_middle [of "a7 @ '':''" cs] by (simp add: form a_defs p_col_def)
  note conv = size_t_add_small size_t_sub_small to_int_small to_size_t_nonneg
  have e_map_begin: "to_int (size_t_add (string_find map_str ''{'' 0) 1) = int p_lb + 1"
    using order by (simp add: f1 conv)
  have e_map_end: "to_int (size_t_sub (string_find map_str ''}'' 0) 1) = int p_rb - 1"
    using order by (simp add: f2 conv of_nat_diff)
  have e_col: "to_int (size_t_add (string_find map_str '':'' 0) 1) = int p_col + 1"
    using order by (simp add: f8 conv)
  have e_br1: "to_int (size_t_add p_br1 1) = int p_br1 + 1"
    "to_int (size_t_sub p_br1 1) = int p_br1 - 1"
    using order by (simp_all add: conv of_nat_diff)
  have e_cl1: "to_int (size_t_sub p_cl1 1) = int p_cl1 - 1"
    using order by (simp add: conv of_nat_diff)
  have e_ar: "to_int p_ar = int p_ar"
    using order by (simp add: conv)
  have e_br2: "to_int (size_t_add p_br2 1) = int p_br2 + 1"
    "to_int (size_t_sub p_br2 1) = int p_br2 - 1"
    using order by (simp_all add: conv of_nat_diff)
  have e_cl2: "to_int (size_t_sub p_cl2 1) = int p_cl2 - 1"
    using order by (simp add: conv of_nat_diff)
  have z_pos: "to_size_t (int p_lb + 1) = Suc p_lb" "to_size_t (int p_br1 + 1) = Suc p_br1"
    "to_size_t (int p_cl1 - 1) = p_cl1 - 1" "to_size_t (int p_ar) = p_ar"
    "to_size_t (int p_ar + 2) = p_ar + 2" "to_size_t (int p_br2 + 1) = Suc p_br2"
    "to_size_t (int p_cl2 - 1) = p_cl2 - 1" "to_size_t (int p_col + 1) = Suc p_col"
    "to_size_t (int p_rb - 1) = p_rb - 1"
    using order by (simp_all add: conv nat_add_distrib nat_diff_distrib)
  have z_len: "to_size_t (int p_br1 - 1 - (int p_lb + 1) + 1) = length dn"
    "to_size_t (int p_cl1 - 1 - (int p_br1 + 1) + 1) = length dd"
    "to_size_t (int p_br2 - 1 - (int p_ar + 2) + 1) = length rn"
    "to_size_t (int p_cl2 - 1 - (int p_br2 + 1) + 1) = length rd"
    "to_size_t (int p_rb - 1 - (int p_col + 1) + 1) = length cs"
    using order by (simp_all add: conv)
  have ne: "Suc p_lb \<noteq> npos" "p_rb - Suc 0 \<noteq> npos" "Suc p_br1 \<noteq> npos"
    "p_cl1 - Suc 0 \<noteq> npos" "p_ar \<noteq> npos" "Suc p_br2 \<noteq> npos"
    "p_cl2 - Suc 0 \<noteq> npos" "Suc p_col \<noteq> npos"
    using order by (simp_all add: npos_def)
  have s3': "string_substr map_str (Suc (Suc p_ar)) (length rn) = Inr rn"
    using s3 by simp
  show ?thesis
    unfolding parser_map_def Let_def e_map_begin e_map_end e_col z_pos f3 f4 e_br1 e_cl1
      z_len f5 e_ar f6 f7 e_br2 e_cl2
    by (simp add: ne s1 s2 s3' s4 s5 bind_error_def space_parse_def constraint_parse_def cs)
qed

text \<open>
  The set form, and any other text that has no arrow after the domain tuple: the search
  for the arrow returns \<open>npos\<close>, which is kept by the conversion to \<^verbatim>\<open>int\<close> and back, and
  the assertion on the position of the arrow fails.
\<close>

lemma find_aux_no_sublist:
  "pat \<noteq> [] \<Longrightarrow> \<not> sublist pat s \<Longrightarrow> find_aux pat s k = npos"
proof (induction s arbitrary: k)
  case Nil
  then show ?case by simp
next
  case (Cons c cs)
  from Cons.prems(2) have "\<not> prefix pat (c # cs)" "\<not> sublist pat cs"
    by (simp_all add: sublist_Cons_right)
  with Cons.IH [OF Cons.prems(1)] show ?case by simp
qed

lemma to_size_t_to_int_npos: "to_size_t (to_int npos) = npos"
  by (simp add: to_size_t_def to_int_def npos_def)

lemma parser_map_set_form:
  fixes pre dn dd tail :: string
  assumes form: "map_str = pre @ ''{'' @ dn @ ''['' @ dd @ '']'' @ tail"
    and pre: "set pre \<inter> set ''{}:'' = {}"
    and pl: "plain dn" "plain dd"
    and tail: "\<not> sublist ''->'' tail"
    and len: "length map_str < 2 ^ 31"
  shows "parser_map map_str = Inl AssertionFailed"
proof -
  define a2 where "a2 = pre @ ''{'' @ dn"
  define a3 where "a3 = a2 @ ''['' @ dd"
  note a_defs = a2_def a3_def
  define p_lb where "p_lb = length pre"
  define p_br1 where "p_br1 = length a2"
  define p_cl1 where "p_cl1 = length a3"
  note p_defs = p_lb_def p_br1_def p_cl1_def
  have order: "p_br1 = p_lb + 1 + length dn" "p_cl1 = p_br1 + 1 + length dd"
    "p_cl1 < 2 ^ 31"
    using len by (simp_all add: p_defs a_defs form)
  have f1: "string_find map_str ''{'' 0 = p_lb"
  proof -
    have "CHR ''{'' \<notin> set pre" using pre by auto
    then show ?thesis
      unfolding p_lb_def using string_find_char [of 0 pre "CHR ''{''"] by (simp add: form)
  qed
  have f3: "string_find map_str ''['' (Suc p_lb) = p_br1"
  proof -
    have "map_str = a2 @ CHR ''['' # dd @ '']'' @ tail"
      by (simp add: form a_defs)
    moreover have "CHR ''['' \<notin> set (drop (Suc p_lb) a2)"
      using pl(1) by (auto simp: a_defs p_lb_def plain_def)
    moreover have "Suc p_lb \<le> length a2" by (simp add: a_defs p_lb_def)
    ultimately show ?thesis
      unfolding p_br1_def using string_find_char [of "Suc p_lb" a2 "CHR ''[''"] by simp
  qed
  have f4: "string_find map_str '']'' (Suc p_lb) = p_cl1"
  proof -
    have "map_str = a3 @ CHR '']'' # tail"
      by (simp add: form a_defs)
    moreover have "CHR '']'' \<notin> set (drop (Suc p_lb) a3)"
      using pl(1,2) by (auto simp: a_defs p_lb_def plain_def)
    moreover have "Suc p_lb \<le> length a3" by (simp add: a_defs p_lb_def)
    ultimately show ?thesis
      unfolding p_cl1_def using string_find_char [of "Suc p_lb" a3 "CHR '']''"] by simp
  qed
  have f5: "string_find map_str ''->'' (p_cl1 - 1) = npos"
  proof -
    have "drop (p_cl1 - 1) map_str = drop (length dd) (''['' @ dd) @ '']'' @ tail"
      using drop_append [of "length dd" "CHR ''['' # dd" "CHR '']'' # tail"]
      by (simp add: form a_defs p_cl1_def)
    moreover obtain x where "drop (length dd) (''['' @ dd) = [x]" "x \<noteq> CHR ''-''"
    proof (cases dd rule: rev_cases)
      case Nil
      then show ?thesis using that by simp
    next
      case (snoc ys y)
      with pl(2) have "y \<noteq> CHR ''-''" by (auto simp: plain_def)
      with snoc show ?thesis using that by simp
    qed
    ultimately have "drop (p_cl1 - 1) map_str = x # CHR '']'' # tail" "x \<noteq> CHR ''-''"
      by simp_all
    with tail have "\<not> sublist ''->'' (drop (p_cl1 - 1) map_str)"
      by (simp add: sublist_Cons_right)
    then have "find_aux ''->'' (drop (p_cl1 - 1) map_str) (p_cl1 - 1) = npos"
      by (simp add: find_aux_no_sublist)
    moreover have "p_cl1 - 1 \<le> length map_str"
      by (simp add: form a_defs p_cl1_def)
    ultimately show ?thesis by (simp add: string_find_def)
  qed
  have s1: "string_substr map_str (Suc p_lb) (length dn) = Inr dn"
    using string_substr_middle [of "pre @ ''{''" dn] by (simp add: form p_lb_def)
  have s2: "string_substr map_str (Suc p_br1) (length dd) = Inr dd"
    using string_substr_middle [of "a2 @ ''[''" dd] by (simp add: form a_defs p_br1_def)
  note conv = size_t_add_small size_t_sub_small to_int_small to_size_t_nonneg
  have e_map_begin: "to_int (size_t_add (string_find map_str ''{'' 0) 1) = int p_lb + 1"
    using order by (simp add: f1 conv)
  have e_br1: "to_int (size_t_add p_br1 1) = int p_br1 + 1"
    "to_int (size_t_sub p_br1 1) = int p_br1 - 1"
    using order by (simp_all add: conv of_nat_diff)
  have e_cl1: "to_int (size_t_sub p_cl1 1) = int p_cl1 - 1"
    using order by (simp add: conv of_nat_diff)
  have z_pos: "to_size_t (int p_lb + 1) = Suc p_lb" "to_size_t (int p_br1 + 1) = Suc p_br1"
    "to_size_t (int p_cl1 - 1) = p_cl1 - 1"
    using order by (simp_all add: conv nat_add_distrib nat_diff_distrib)
  have z_len: "to_size_t (int p_br1 - 1 - (int p_lb + 1) + 1) = length dn"
    "to_size_t (int p_cl1 - 1 - (int p_br1 + 1) + 1) = length dd"
    using order by (simp_all add: conv)
  have ne: "Suc p_lb \<noteq> npos" "Suc p_br1 \<noteq> npos" "p_cl1 - Suc 0 \<noteq> npos"
    using order by (simp_all add: npos_def)
  have f5': "string_find map_str ''->'' (p_cl1 - Suc 0) = npos"
    using f5 by simp
  show ?thesis
    unfolding parser_map_def Let_def e_map_begin z_pos f3 f4 e_br1 e_cl1 z_len
    by (simp add: ne s1 s2 f5' to_size_t_to_int_npos bind_error_def)
qed

text \<open>
  C7, amended. For every text in the map form with a constraint part,
  \<open>pre {dn[dd] sp1 -> rn[rd] sp2 : cs} post\<close>, where the names, the dimension texts and
  the spacings are plain, \<open>pre\<close> (which may hold a parameter list) has no brace and no
  colon, \<open>cs\<close> is not empty and has no closing brace, and the text is shorter than
  \<open>2 ^ 31\<close> characters, the parser returns the domain tuple name \<open>dn\<close>, the domain
  dimension names (the pieces of \<open>dd\<close> between commas), the range tuple name \<open>rn\<close>, the
  range dimension names, and the constraint list obtained by splitting \<open>cs\<close> at every
  \<open>and\<close>. The parameter list is left empty. For every text in the set form,
  \<open>pre {dn[dd] tail\<close> with no arrow in \<open>tail\<close>, the constructor fails its assertion.
\<close>

theorem parser_map_canonical:
  fixes pre dn dd sp1 rn rd sp2 cs post tail :: string
  assumes pre: "set pre \<inter> set ''{}:'' = {}"
    and pl: "plain dn" "plain dd"
  shows "(plain sp1 \<and> plain rn \<and> plain rd \<and> plain sp2 \<and> CHR ''}'' \<notin> set cs \<and> cs \<noteq> []
          \<and> length (pre @ ''{'' @ dn @ ''['' @ dd @ '']'' @ sp1 @ ''->'' @ rn @ ''[''
                @ rd @ '']'' @ sp2 @ '':'' @ cs @ ''}'' @ post) < 2 ^ 31 \<longrightarrow>
          parser_map (pre @ ''{'' @ dn @ ''['' @ dd @ '']'' @ sp1 @ ''->'' @ rn @ ''[''
                @ rd @ '']'' @ sp2 @ '':'' @ cs @ ''}'' @ post) =
            Inr \<lparr>map_parameters = \<lparr>dimensions = []\<rparr>, domain_name = dn, range_name = rn,
                 map_domain = \<lparr>dimensions = split_string dd '','' []\<rparr>,
                 map_range = \<lparr>dimensions = split_string rd '','' []\<rparr>,
                 map_constraints = \<lparr>constraints = split_string cs ''and'' []\<rparr>\<rparr>)
       \<and> (\<not> sublist ''->'' tail
          \<and> length (pre @ ''{'' @ dn @ ''['' @ dd @ '']'' @ tail) < 2 ^ 31 \<longrightarrow>
          parser_map (pre @ ''{'' @ dn @ ''['' @ dd @ '']'' @ tail) = Inl AssertionFailed)"
proof (intro conjI impI)
  assume "plain sp1 \<and> plain rn \<and> plain rd \<and> plain sp2 \<and> CHR ''}'' \<notin> set cs \<and> cs \<noteq> []
          \<and> length (pre @ ''{'' @ dn @ ''['' @ dd @ '']'' @ sp1 @ ''->'' @ rn @ ''[''
                @ rd @ '']'' @ sp2 @ '':'' @ cs @ ''}'' @ post) < 2 ^ 31"
  with pre pl show "parser_map (pre @ ''{'' @ dn @ ''['' @ dd @ '']'' @ sp1 @ ''->'' @ rn
                @ ''['' @ rd @ '']'' @ sp2 @ '':'' @ cs @ ''}'' @ post) =
            Inr \<lparr>map_parameters = \<lparr>dimensions = []\<rparr>, domain_name = dn, range_name = rn,
                 map_domain = \<lparr>dimensions = split_string dd '','' []\<rparr>,
                 map_range = \<lparr>dimensions = split_string rd '','' []\<rparr>,
                 map_constraints = \<lparr>constraints = split_string cs ''and'' []\<rparr>\<rparr>"
    by (intro parser_map_map_form [OF refl]) simp_all
next
  assume "\<not> sublist ''->'' tail
          \<and> length (pre @ ''{'' @ dn @ ''['' @ dd @ '']'' @ tail) < 2 ^ 31"
  with pre pl show "parser_map (pre @ ''{'' @ dn @ ''['' @ dd @ '']'' @ tail)
      = Inl AssertionFailed"
    by (intro parser_map_set_form [OF refl]) simp_all
qed

theorem parser_map_canonical_witness:
  "set [] \<inter> set ''{}:'' = {} \<and> plain ''S0'' \<and> plain ''i,j'' \<and> plain []
   \<and> plain ''buf0'' \<and> plain ''i, j'' \<and> CHR ''}'' \<notin> set '' 0<=i<=10 and 0<=j<=10''
   \<and> '' 0<=i<=10 and 0<=j<=10'' \<noteq> []
   \<and> length ''{S0[i,j]->buf0[i, j]: 0<=i<=10 and 0<=j<=10}'' < 2 ^ 31
   \<and> parser_map ''{S0[i,j]->buf0[i, j]: 0<=i<=10 and 0<=j<=10}'' =
       Inr \<lparr>map_parameters = \<lparr>dimensions = []\<rparr>, domain_name = ''S0'',
            range_name = ''buf0'',
            map_domain = \<lparr>dimensions = [''i'', ''j'']\<rparr>,
            map_range = \<lparr>dimensions = [''i'', '' j'']\<rparr>,
            map_constraints = \<lparr>constraints = ['' 0<=i<=10 '', '' 0<=j<=10'']\<rparr>\<rparr>
   \<and> \<not> sublist ''->'' '': 0<=i<=10 and 0<=j<=10}''
   \<and> length ''{S0[i,j]: 0<=i<=10 and 0<=j<=10}'' < 2 ^ 31
   \<and> parser_map ''{S0[i,j]: 0<=i<=10 and 0<=j<=10}'' = Inl AssertionFailed"
proof -
  have p: "set [] \<inter> set ''{}:'' = {}" "plain ''S0''" "plain ''i,j''" "plain []"
    "plain ''buf0''" "plain ''i, j''"
    by (simp_all add: plain_def)
  have c: "CHR ''}'' \<notin> set '' 0<=i<=10 and 0<=j<=10''" "'' 0<=i<=10 and 0<=j<=10'' \<noteq> []"
    "\<not> sublist ''->'' '': 0<=i<=10 and 0<=j<=10}''"
    by (simp_all add: sublist_Cons_right)
  have sp: "split_string ''i,j'' '','' [] = [''i'', ''j'']"
    "split_string ''i, j'' '','' [] = [''i'', '' j'']"
    "split_string '' 0<=i<=10 and 0<=j<=10'' ''and'' [] = ['' 0<=i<=10 '', '' 0<=j<=10'']"
    by (simp_all add: split_string_found split_string_not_found string_find_def npos_def)
  from parser_map_canonical [of "[]" "''S0''" "''i,j''" "[]" "''buf0''" "''i, j''" "[]"
      "'' 0<=i<=10 and 0<=j<=10''" "[]" "'': 0<=i<=10 and 0<=j<=10}''"]
    p c sp
  show ?thesis by simp
qed

subsection \<open>The identity schedule\<close>

lemmas identity_eval = identity_schedule_str_def string_find_def string_erase_def
  string_insert_def bind_error_def npos_def size_t_sub_def size_t_add_def

text \<open>
  For an iteration set printed without a parameter list, the text built by
  \<^verbatim>\<open>set_identity_schedule\<close> is the identity form: the tuple of the set, an arrow, the
  same tuple, and the constraints of the set if it has any.
\<close>

lemma identity_schedule_str_constraints:
  assumes form: "set_str = ''{'' @ d @ '':'' @ c @ ''}''"
    and d: "set d \<inter> set ''{}:'' = {}" and c: "CHR ''}'' \<notin> set c"
    and len: "length set_str < 2 ^ 63"
  shows "identity_schedule_str set_str = Inr (''{'' @ d @ '' -> '' @ d @ '':'' @ c @ ''}'')"
proof -
  have f1: "string_find set_str ''{'' 0 = 0"
    by (simp add: form string_find_def)
  have e1: "string_erase set_str 0 1 = Inr (d @ '':'' @ c @ ''}'')"
    by (simp add: form string_erase_def)
  have f2: "string_find (d @ '':'' @ c @ ''}'') ''}'' 0 = length (d @ '':'' @ c)"
    using string_find_char [of 0 "d @ '':'' @ c" "CHR ''}''" "[]"] d c by auto
  have e2: "string_erase (d @ '':'' @ c @ ''}'') (length (d @ '':'' @ c)) 1 = Inr (d @ '':'' @ c)"
    by (simp add: string_erase_def)
  have f3: "string_find set_str '':'' 0 = Suc (length d)"
    using string_find_char [of 0 "''{'' @ d" "CHR '':''" "c @ ''}''"] d by (auto simp: form)
  have f4: "string_find (d @ '':'' @ c) '':'' 0 = length d"
    using string_find_char [of 0 d "CHR '':''" c] d by auto
  have n: "Suc (length d) \<noteq> npos"
    using len by (simp add: form npos_def)
  have sub: "size_t_sub (length (d @ '':'' @ c)) (length d) = Suc (length c)"
    using len by (simp add: form size_t_sub_def)
  have e3: "string_erase (d @ '':'' @ c) (length d) (Suc (length c)) = Inr d"
    by (simp add: string_erase_def)
  have i: "string_insert set_str (Suc (length d)) ('' -> '' @ d)
      = Inr (''{'' @ d @ '' -> '' @ d @ '':'' @ c @ ''}'')"
    by (simp add: form string_insert_def)
  show ?thesis
    unfolding identity_schedule_str_def Let_def f1 e1
    by (simp only: bind_error_def sum.case f2 e2 f3 f4 n sub e3 i if_True not_False_eq_True)
qed


lemma identity_schedule_str_no_constraints:
  assumes form: "set_str = ''{'' @ d1 @ '']'' @ d2 @ ''}''"
    and d1: "set d1 \<inter> set ''{}:]'' = {}" and d2: "set d2 \<inter> set ''{}:'' = {}"
    and len: "length set_str < 2 ^ 63"
  shows "identity_schedule_str set_str
           = Inr (''{'' @ d1 @ '']'' @ '' -> '' @ d1 @ '']'' @ d2 @ d2 @ ''}'')"
proof -
  have f1: "string_find set_str ''{'' 0 = 0"
    by (simp add: form string_find_def)
  have e1: "string_erase set_str 0 1 = Inr (d1 @ '']'' @ d2 @ ''}'')"
    by (simp add: form string_erase_def)
  have f2: "string_find (d1 @ '']'' @ d2 @ ''}'') ''}'' 0 = length (d1 @ '']'' @ d2)"
    using string_find_char [of 0 "d1 @ '']'' @ d2" "CHR ''}''" "[]"] d1 d2 by auto
  have e2: "string_erase (d1 @ '']'' @ d2 @ ''}'') (length (d1 @ '']'' @ d2)) 1
      = Inr (d1 @ '']'' @ d2)"
    by (simp add: string_erase_def)
  have "CHR '':'' \<notin> set set_str"
    using d1 d2 by (auto simp: form)
  then have "find_aux '':'' set_str k = npos" for k
    by (induction set_str arbitrary: k) auto
  then have f3: "string_find set_str '':'' 0 = npos"
    by (simp add: string_find_def)
  have f4: "string_find set_str '']'' 0 = Suc (length d1)"
    using string_find_char [of 0 "''{'' @ d1" "CHR '']''" "d2 @ ''}''"] d1 by (auto simp: form)
  have add: "size_t_add (Suc (length d1)) 1 = Suc (Suc (length d1))"
    using len by (simp add: form size_t_add_def)
  have i: "string_insert set_str (Suc (Suc (length d1))) ('' -> '' @ d1 @ '']'' @ d2)
      = Inr (''{'' @ d1 @ '']'' @ '' -> '' @ d1 @ '']'' @ d2 @ d2 @ ''}'')"
    by (simp add: form string_insert_def)
  show ?thesis
    unfolding identity_schedule_str_def Let_def f1 e1
    by (simp only: bind_error_def sum.case f2 e2 f3 f4 add i if_False not_not refl not_True_eq_False)
qed

text \<open>
  C3. The constructor initializes the schedule with the relation read from the text that
  \<^verbatim>\<open>set_identity_schedule\<close> builds, which the claim says is the identity form
  \<open>{C[i] -> C[i] : constraints}\<close> also for a set with a parameter list. For such a set the
  library prints the parameter list before the opening brace; the code erases the braces
  only, so the parameter list is copied into the range of the built text. Read by the
  literal parser of the sources, the range tuple of that text is not the tuple of the set.
\<close>

theorem identity_schedule_str_parameter_list:
  "identity_schedule_str ''[N] -> { S0[i, j] : 0 <= i < N and 0 <= j < N }''
     = Inr ''[N] -> { S0[i, j]  -> [N] ->  S0[i, j] : 0 <= i < N and 0 <= j < N }''
   \<and> parser_map ''[N] -> { S0[i, j]  -> [N] ->  S0[i, j] : 0 <= i < N and 0 <= j < N }''
     = Inr \<lparr>map_parameters = \<lparr>dimensions = []\<rparr>, domain_name = '' S0'', range_name = '' '',
            map_domain = \<lparr>dimensions = [''i'', '' j'']\<rparr>,
            map_range = \<lparr>dimensions = [''N'']\<rparr>,
            map_constraints = \<lparr>constraints = ['' 0 <= i < N '', '' 0 <= j < N '']\<rparr>\<rparr>"
  by (simp add: identity_eval parser_eval)

subsection \<open>Tuple names of the schedule\<close>

lemma set_schedule_Inr:
  "set_schedule mo c = Inr c' \<longleftrightarrow>
     (\<exists>m a. mo = Some m \<and> in_tuple_name m = Some a \<and> out_tuple_name m = Some a
        \<and> c' = c\<lparr>schedule := Some m\<rparr>)"
  by (auto simp: set_schedule_def isl_map_get_tuple_name_def split: option.splits)

lemma map_range_points_names:
  "in_tuple_name (map_range_points g k m) = in_tuple_name m"
  "out_tuple_name (map_range_points g k m) = out_tuple_name m"
  by (simp_all add: map_range_points_def)

lemma split_names:
  assumes "split c d f = Inr c'"
  shows "iter_space c' = iter_space c \<and>
     (\<exists>m m'. schedule c = Some m \<and> schedule c' = Some m'
        \<and> in_tuple_name m' = in_tuple_name m \<and> out_tuple_name m' = out_tuple_name m)"
proof (cases "schedule c")
  case None
  with assms show ?thesis by (simp add: split_def)
next
  case (Some m)
  with assms have "c' = c\<lparr>schedule :=
      Some (map_range_points (split_point (nat d) f) (out_n_dim m + 1) m)\<rparr>"
    by (simp add: split_def split: if_splits)
  with Some show ?thesis by (simp add: map_range_points_names)
qed

lemma interchange_names:
  assumes "interchange c d1 d2 = Inr c'"
  shows "iter_space c' = iter_space c \<and>
     (\<exists>m m'. schedule c = Some m \<and> schedule c' = Some m'
        \<and> in_tuple_name m' = in_tuple_name m \<and> out_tuple_name m' = out_tuple_name m)"
proof (cases "schedule c")
  case None
  with assms show ?thesis by (simp add: interchange_def)
next
  case (Some m)
  with assms have "c' = c\<lparr>schedule :=
      Some (map_range_points (interchange_point (nat d1) (nat d2)) (out_n_dim m) m)\<rparr>"
    by (simp add: interchange_def split: if_splits)
  with Some show ?thesis by (simp add: map_range_points_names)
qed

lemma tile_names:
  assumes "tile c d1 d2 f1 f2 = Inr c'"
  shows "iter_space c' = iter_space c \<and>
     (\<exists>m m'. schedule c = Some m \<and> schedule c' = Some m'
        \<and> in_tuple_name m' = in_tuple_name m \<and> out_tuple_name m' = out_tuple_name m)"
proof (cases "schedule c")
  case None
  with assms show ?thesis by (simp add: tile_def)
next
  case (Some m)
  with assms have "c' = c\<lparr>schedule :=
      Some (map_range_points (tile_point (nat d1) (nat d2) f1 f2) (out_n_dim m + 2) m)\<rparr>"
    by (simp add: tile_def split: if_splits)
  with Some show ?thesis by (simp add: map_range_points_names)
qed

lemma transformation_names:
  assumes x: "\<forall>mo. x \<noteq> SetSchedule mo" and op: "apply_op c x = Inr c'"
  shows "iter_space c' = iter_space c \<and>
     (\<exists>m m'. schedule c = Some m \<and> schedule c' = Some m'
        \<and> in_tuple_name m' = in_tuple_name m \<and> out_tuple_name m' = out_tuple_name m)"
proof (cases x)
  case (SetSchedule mo)
  with x show ?thesis by simp
next
  case (Split d f)
  with op split_names [of c d f c'] show ?thesis by simp
next
  case (Interchange d1 d2)
  with op interchange_names [of c d1 d2 c'] show ?thesis by simp
next
  case (Tile d1 d2 f1 f2)
  with op tile_names [of c d1 d2 f1 f2 c'] show ?thesis by simp
qed

lemma apply_op_iter_space:
  assumes "apply_op c x = Inr c'"
  shows "iter_space c' = iter_space c"
proof (cases "\<forall>mo. x \<noteq> SetSchedule mo")
  case True
  from transformation_names [OF True assms] show ?thesis by simp
next
  case False
  then obtain mo where "x = SetSchedule mo" by blast
  with assms have "set_schedule mo c = Inr c'" by simp
  then obtain m where "c' = c\<lparr>schedule := Some m\<rparr>"
    unfolding set_schedule_Inr by blast
  then show ?thesis by simp
qed

lemma apply_op_names_agree:
  assumes "apply_op c x = Inr c'" and "schedule_names_agree c"
  shows "schedule_names_agree c'"
proof (cases "\<forall>mo. x \<noteq> SetSchedule mo")
  case True
  from transformation_names [OF True assms(1)] obtain m m' where
    "schedule c = Some m" "schedule c' = Some m'"
    "in_tuple_name m' = in_tuple_name m" "out_tuple_name m' = out_tuple_name m"
    by blast
  with assms(2) show ?thesis
    by (cases "in_tuple_name m") (simp_all add: schedule_names_agree_def)
next
  case False
  then obtain mo where "x = SetSchedule mo" by blast
  with assms have "set_schedule mo c = Inr c'" by simp
  then obtain m a where "c' = c\<lparr>schedule := Some m\<rparr>" "in_tuple_name m = Some a"
      "out_tuple_name m = Some a"
    unfolding set_schedule_Inr by blast
  then show ?thesis by (simp add: schedule_names_agree_def)
qed

lemma apply_op_named_as_iter_space:
  assumes "apply_op c x = Inr c'" and "schedule_named_as_iter_space c"
    and "\<forall>m. x = SetSchedule (Some m) \<longrightarrow>
            Some (in_tuple_name m) = map_option set_tuple_name (iter_space c)"
  shows "schedule_named_as_iter_space c'"
proof (cases "\<forall>mo. x \<noteq> SetSchedule mo")
  case True
  from transformation_names [OF True assms(1)] obtain m m' where
    "schedule c = Some m" "schedule c' = Some m'" "iter_space c' = iter_space c"
    "in_tuple_name m' = in_tuple_name m" "out_tuple_name m' = out_tuple_name m"
    by blast
  with assms(2) show ?thesis
    by (cases "iter_space c"; cases "in_tuple_name m")
       (simp_all add: schedule_named_as_iter_space_def)
next
  case False
  then obtain mo where x: "x = SetSchedule mo" by blast
  with assms have "set_schedule mo c = Inr c'" by simp
  then obtain m a where m: "mo = Some m" "c' = c\<lparr>schedule := Some m\<rparr>"
      "in_tuple_name m = Some a" "out_tuple_name m = Some a"
    unfolding set_schedule_Inr by blast
  from assms(3) x m(1) have "Some (in_tuple_name m) = map_option set_tuple_name (iter_space c)"
    by simp
  with m(3) obtain s where "iter_space c = Some s" "set_tuple_name s = Some a"
    by (cases "iter_space c") auto
  with m(2,3) show ?thesis
    by (simp add: schedule_named_as_iter_space_def)
qed

lemma apply_ops_Cons_Inr:
  assumes "apply_ops c (x # xs) = Inr c'"
  obtains c1 where "apply_op c x = Inr c1" and "apply_ops c1 xs = Inr c'"
  using assms by (cases "apply_op c x") (simp_all add: bind_error_def)

lemma apply_ops_iter_space:
  "apply_ops c ops = Inr c' \<Longrightarrow> iter_space c' = iter_space c"
proof (induction ops arbitrary: c)
  case Nil
  then show ?case by simp
next
  case (Cons x xs)
  from Cons.prems obtain c1 where c1: "apply_op c x = Inr c1" "apply_ops c1 xs = Inr c'"
    by (rule apply_ops_Cons_Inr)
  from Cons.IH [OF c1(2)] apply_op_iter_space [OF c1(1)] show ?case by simp
qed

lemma apply_ops_names_agree:
  "apply_ops c ops = Inr c' \<Longrightarrow> schedule_names_agree c \<Longrightarrow> schedule_names_agree c'"
proof (induction ops arbitrary: c)
  case Nil
  then show ?case by simp
next
  case (Cons x xs)
  from Cons.prems(1) obtain c1 where c1: "apply_op c x = Inr c1" "apply_ops c1 xs = Inr c'"
    by (rule apply_ops_Cons_Inr)
  from apply_op_names_agree [OF c1(1) Cons.prems(2)] Cons.IH [OF c1(2)] show ?case by simp
qed

lemma apply_ops_named_as_iter_space:
  "apply_ops c ops = Inr c' \<Longrightarrow> schedule_named_as_iter_space c
   \<Longrightarrow> \<forall>m. SetSchedule (Some m) \<in> set ops \<longrightarrow>
          Some (in_tuple_name m) = map_option set_tuple_name (iter_space c)
   \<Longrightarrow> schedule_named_as_iter_space c'"
proof (induction ops arbitrary: c)
  case Nil
  then show ?case by simp
next
  case (Cons x xs)
  from Cons.prems(1) obtain c1 where c1: "apply_op c x = Inr c1" "apply_ops c1 xs = Inr c'"
    by (rule apply_ops_Cons_Inr)
  have hd: "\<forall>m. x = SetSchedule (Some m) \<longrightarrow>
      Some (in_tuple_name m) = map_option set_tuple_name (iter_space c)"
    using Cons.prems(3) by (metis list.set_intros(1))
  have c1_inv: "schedule_named_as_iter_space c1"
    using c1(1) Cons.prems(2) hd by (rule apply_op_named_as_iter_space)
  have it: "iter_space c1 = iter_space c"
    using c1(1) by (rule apply_op_iter_space)
  have tl: "\<forall>m. SetSchedule (Some m) \<in> set xs \<longrightarrow>
      Some (in_tuple_name m) = map_option set_tuple_name (iter_space c1)"
    unfolding it using Cons.prems(3) by (metis list.set_intros(2))
  show ?case
    using c1(2) c1_inv tl by (rule Cons.IH)
qed

lemma set_identity_schedule_Inr:
  assumes "set_identity_schedule isl' c0 = Inr c"
  shows "\<exists>m a. c = c0\<lparr>schedule := Some m\<rparr> \<and> in_tuple_name m = Some a
            \<and> out_tuple_name m = Some a"
proof -
  from assms obtain t where "set_schedule_str isl' t c0 = Inr c"
    by (auto simp: set_identity_schedule_def bind_error_def split: sum.splits)
  then show ?thesis
    by (auto simp: set_schedule_str_def set_schedule_Inr)
qed

lemma new_computation_Inr:
  assumes "new_computation isl' this expr str fct' cl = Inr (c, cl', f')"
  shows "(\<exists>s. isl_set_read_from_str isl' str = Some s \<and> iter_space c = Some s
             \<and> set_tuple_name s = Some (name c))
          \<and> schedule_names_agree c"
proof -
  from assms obtain a b where fct': "fct' = Some (a, b)"
    by (cases fct') (auto simp: new_computation_def)
  from assms fct' obtain s where s: "isl_set_read_from_str isl' str = Some s"
    by (cases "isl_set_read_from_str isl' str")
       (auto simp: new_computation_def split: if_splits)
  from assms fct' s obtain n where n: "set_tuple_name s = Some n"
    by (cases "set_tuple_name s")
       (auto simp: new_computation_def isl_space_get_tuple_name_def isl_set_get_space_def
          split: if_splits)
  define c0 :: "('a, 'b, 'c) computation" where
    "c0 = \<lparr>time_processor_space = None, iter_space = Some s, schedule = None, fct = a,
           name = n, expression = expr, stmt = None, access = None, index_expr = None\<rparr>"
  from assms fct' s n have "set_identity_schedule isl' c0 = Inr c"
    by (auto simp: new_computation_def isl_space_get_tuple_name_def isl_set_get_space_def
          bind_error_def Let_def c0_def split: if_splits sum.splits)
  from set_identity_schedule_Inr [OF this] s n show ?thesis
    by (auto simp: schedule_names_agree_def c0_def)
qed

text \<open>
  The text that \<^verbatim>\<open>set_identity_schedule\<close> builds from a text in the set form is in the
  map form, from the tuple of the set to a tuple of the same name.
\<close>

lemma tuple_text_chars:
  assumes "tuple_text n d"
  shows "set d \<inter> set ''{}:'' = {}"
proof -
  from assms obtain sp ds sp' where d: "d = sp @ n @ ''['' @ ds @ '']'' @ sp'"
    "spaces sp" "spaces sp'" "set ds \<inter> set ''[]{}:'' = {}"
    and n: "set n \<inter> set '' []{}:->,'' = {}"
    unfolding tuple_text_def by blast
  have "c \<notin> set sp" "c \<notin> set sp'" "c \<notin> set n" "c \<notin> set ds" if "c \<in> set ''{}:''" for c
    using that d(2,3,4) n by (auto simp: spaces_def)
  then show ?thesis
    unfolding d(1) by auto
qed

lemma tuple_text_pad:
  assumes "tuple_text n d" and "spaces a" and "spaces b"
  shows "tuple_text n (a @ d @ b)"
proof -
  from assms(1) obtain sp ds sp' where d: "d = sp @ n @ ''['' @ ds @ '']'' @ sp'"
    "spaces sp" "spaces sp'" "set ds \<inter> set ''[]{}:'' = {}"
    and n: "n \<noteq> []" "set n \<inter> set '' []{}:->,'' = {}"
    unfolding tuple_text_def by blast
  have "a @ d @ b = (a @ sp) @ n @ ''['' @ ds @ '']'' @ (sp' @ b)"
    "spaces (a @ sp)" "spaces (sp' @ b)"
    using d(1,2,3) assms(2,3) by (simp_all add: spaces_def)
  with d(4) n show ?thesis
    unfolding tuple_text_def by blast
qed

lemma identity_schedule_str_set_text:
  assumes "set_text n t"
  shows "\<exists>u. identity_schedule_str t = Inr u \<and> map_text n n u"
proof -
  from assms obtain d where len: "length t < 2 ^ 63" and d: "tuple_text n d"
    and t: "t = ''{'' @ d @ ''}'' \<or> (\<exists>c. t = ''{'' @ d @ '':'' @ c @ ''}'' \<and> CHR ''}'' \<notin> set c)"
    unfolding set_text_def by blast
  have sp: "spaces '' ''" "spaces []"
    by (simp_all add: spaces_def)
  have l: "tuple_text n (d @ '' '')"
    using tuple_text_pad [OF d sp(2) sp(1)] by simp
  from t show ?thesis
  proof
    assume "\<exists>c. t = ''{'' @ d @ '':'' @ c @ ''}'' \<and> CHR ''}'' \<notin> set c"
    then obtain c where c: "t = ''{'' @ d @ '':'' @ c @ ''}''" "CHR ''}'' \<notin> set c"
      by blast
    have r: "tuple_text n ('' '' @ d)"
      using tuple_text_pad [OF d sp(1) sp(2)] by simp
    have "identity_schedule_str t = Inr (''{'' @ d @ '' -> '' @ d @ '':'' @ c @ ''}'')"
      using c(1) tuple_text_chars [OF d] c(2) len by (rule identity_schedule_str_constraints)
    moreover have "''{'' @ d @ '' -> '' @ d @ '':'' @ c @ ''}''
        = ''{'' @ (d @ '' '') @ ''->'' @ ('' '' @ d) @ ('':'' @ c @ ''}'')"
      by simp
    ultimately show ?thesis
      using l r unfolding map_text_def by blast
  next
    assume t: "t = ''{'' @ d @ ''}''"
    from d obtain sp ds sp' where f: "d = sp @ n @ ''['' @ ds @ '']'' @ sp'"
      "spaces sp" "spaces sp'" "set ds \<inter> set ''[]{}:'' = {}"
      and n: "set n \<inter> set '' []{}:->,'' = {}" and ne: "n \<noteq> []"
      unfolding tuple_text_def by blast
    define d1 where "d1 = sp @ n @ ''['' @ ds"
    have d1: "d = d1 @ '']'' @ sp'"
      by (simp add: d1_def f(1))
    have "c \<notin> set sp" "c \<notin> set n" "c \<notin> set ds" if "c \<in> set ''{}:]''" for c
      using that f(2,4) n by (auto simp: spaces_def)
    then have c1: "set d1 \<inter> set ''{}:]'' = {}"
      unfolding d1_def by auto
    have c2: "set sp' \<inter> set ''{}:'' = {}"
      using f(3) by (auto simp: spaces_def)
    have r: "tuple_text n ('' '' @ d @ sp')"
      using tuple_text_pad [OF d sp(1) f(3)] .
    have "identity_schedule_str t
        = Inr (''{'' @ d1 @ '']'' @ '' -> '' @ d1 @ '']'' @ sp' @ sp' @ ''}'')"
      using _ c1 c2 len by (rule identity_schedule_str_no_constraints) (simp add: t d1)
    moreover have "''{'' @ d1 @ '']'' @ '' -> '' @ d1 @ '']'' @ sp' @ sp' @ ''}''
        = ''{'' @ (d1 @ '']'' @ '' '') @ ''->'' @ ('' '' @ d @ sp') @ ''}''"
      by (simp add: d1)
    moreover have "tuple_text n (d1 @ '']'' @ '' '')"
    proof -
      have "d1 @ '']'' @ '' '' = sp @ n @ ''['' @ ds @ '']'' @ '' ''"
        by (simp add: d1_def)
      with f(2,4) sp(1) n ne show ?thesis
        unfolding tuple_text_def by blast
    qed
    ultimately show ?thesis
      using r unfolding map_text_def by blast
  qed
qed


lemma set_identity_schedule_named:
  assumes run: "set_identity_schedule isl' c0 = Inr c"
    and s: "iter_space c0 = Some s"
    and form: "set_text n (isl_set_to_str isl' s)"
    and reads: "reads_tuple_names isl'"
  shows "\<exists>m. c = c0\<lparr>schedule := Some m\<rparr> \<and> in_tuple_name m = Some n
            \<and> out_tuple_name m = Some n"
proof -
  from identity_schedule_str_set_text [OF form] obtain u
    where u: "identity_schedule_str (isl_set_to_str isl' s) = Inr u" "map_text n n u"
    by blast
  from run s u(1) have "set_schedule (isl_map_read_from_str isl' u) c0 = Inr c"
    by (simp add: set_identity_schedule_def get_iteration_space_representation_def
          bind_error_def set_schedule_str_def)
  then obtain m where m: "isl_map_read_from_str isl' u = Some m" "c = c0\<lparr>schedule := Some m\<rparr>"
    unfolding set_schedule_Inr by blast
  from reads m(1) u(2) have "in_tuple_name m = Some n \<and> out_tuple_name m = Some n"
    unfolding reads_tuple_names_def by blast
  with m(2) show ?thesis by blast
qed

lemma new_computation_named:
  assumes run: "new_computation isl' this expr str fct' cl = Inr (c, cl', f')"
    and reads: "reads_tuple_names isl'"
    and prints: "\<exists>s. iter_space c = Some s \<and> prints_set_form isl' s"
  shows "schedule_named_as_iter_space c"
proof -
  from run obtain a b where fct': "fct' = Some (a, b)"
    by (cases fct') (auto simp: new_computation_def)
  from run fct' obtain s where s: "isl_set_read_from_str isl' str = Some s"
    by (cases "isl_set_read_from_str isl' str")
       (auto simp: new_computation_def split: if_splits)
  from run fct' s obtain n where n: "set_tuple_name s = Some n"
    by (cases "set_tuple_name s")
       (auto simp: new_computation_def isl_space_get_tuple_name_def isl_set_get_space_def
          split: if_splits)
  define c0 :: "('a, 'b, 'c) computation" where
    "c0 = \<lparr>time_processor_space = None, iter_space = Some s, schedule = None, fct = a,
           name = n, expression = expr, stmt = None, access = None, index_expr = None\<rparr>"
  from run fct' s n have i: "set_identity_schedule isl' c0 = Inr c"
    by (auto simp: new_computation_def isl_space_get_tuple_name_def isl_set_get_space_def
          bind_error_def Let_def c0_def split: if_splits sum.splits)
  have s0: "iter_space c0 = Some s"
    by (simp add: c0_def)
  from set_identity_schedule_Inr [OF i] s0 have "iter_space c = Some s"
    by auto
  with prints n have "set_text n (isl_set_to_str isl' s)"
    by (auto simp: prints_set_form_def)
  from set_identity_schedule_named [OF i s0 this reads] s0 n show ?thesis
    by (auto simp: schedule_named_as_iter_space_def)
qed

lemma set_schedule_named:
  assumes "set_schedule (Some m) c = Inr c1" and "iter_space c = Some s"
  shows "schedule_named_as_iter_space c1 \<longleftrightarrow> in_tuple_name m = set_tuple_name s"
proof -
  from assms(1) obtain a where "in_tuple_name m = Some a" "c1 = c\<lparr>schedule := Some m\<rparr>"
    unfolding set_schedule_Inr by blast
  with assms(2) show ?thesis
    by (auto simp: schedule_named_as_iter_space_def)
qed

text \<open>The names of a text in the map form can be read off the text.\<close>

lemma tuple_text_name:
  assumes "tuple_text n d"
  shows "takeWhile (\<lambda>c. c \<noteq> CHR ''['') (dropWhile (\<lambda>c. c = CHR '' '') (d @ x)) = n"
    and "dropWhile (\<lambda>c. c = CHR '' '')
           (tl (dropWhile (\<lambda>c. c \<noteq> CHR '']'') (d @ ''->'' @ x))) = ''->'' @ x"
proof -
  from assms obtain sp ds sp' where d: "d = sp @ n @ ''['' @ ds @ '']'' @ sp'"
    "spaces sp" "spaces sp'" "set ds \<inter> set ''[]{}:'' = {}"
    and n: "n \<noteq> []" "set n \<inter> set '' []{}:->,'' = {}"
    unfolding tuple_text_def by blast
  have sp: "\<And>c. c \<in> set sp \<Longrightarrow> c = CHR '' ''" "\<And>c. c \<in> set sp' \<Longrightarrow> c = CHR '' ''"
    using d(2,3) by (auto simp: spaces_def)
  have nn: "\<And>c. c \<in> set n \<Longrightarrow> c \<noteq> CHR '' '' \<and> c \<noteq> CHR ''['' \<and> c \<noteq> CHR '']''"
    using n(2) by auto
  have dd: "\<And>c. c \<in> set ds \<Longrightarrow> c \<noteq> CHR '']''"
    using d(4) by auto
  have hd: "hd n \<noteq> CHR '' ''"
    using n(1) nn by (cases n) auto
  have "dropWhile (\<lambda>c. c = CHR '' '') (d @ x) = n @ ''['' @ ds @ '']'' @ sp' @ x"
    using sp(1) hd n(1) by (cases n) (simp_all add: d(1) dropWhile_append)
  then show "takeWhile (\<lambda>c. c \<noteq> CHR ''['') (dropWhile (\<lambda>c. c = CHR '' '') (d @ x)) = n"
    using nn by (simp add: takeWhile_append)
  have "dropWhile (\<lambda>c. c \<noteq> CHR '']'') (d @ ''->'' @ x) = '']'' @ sp' @ ''->'' @ x"
    using sp(1) nn dd by (simp add: d(1) dropWhile_append) auto
  then show "dropWhile (\<lambda>c. c = CHR '' '')
           (tl (dropWhile (\<lambda>c. c \<noteq> CHR '']'') (d @ ''->'' @ x))) = ''->'' @ x"
    using sp(2) by (simp add: dropWhile_append)
qed

lemma map_text_names:
  assumes "map_text a b t"
  shows "a = takeWhile (\<lambda>c. c \<noteq> CHR ''['') (dropWhile (\<lambda>c. c = CHR '' '') (tl t))"
    and "b = takeWhile (\<lambda>c. c \<noteq> CHR ''['') (dropWhile (\<lambda>c. c = CHR '' '')
           (drop 2 (dropWhile (\<lambda>c. c = CHR '' '')
              (tl (dropWhile (\<lambda>c. c \<noteq> CHR '']'') (tl t))))))"
proof -
  from assms obtain d r rest where t: "t = ''{'' @ d @ ''->'' @ r @ rest"
    and d: "tuple_text a d" and r: "tuple_text b r"
    unfolding map_text_def by blast
  have tl: "tl t = d @ ''->'' @ r @ rest"
    by (simp add: t)
  show "a = takeWhile (\<lambda>c. c \<noteq> CHR ''['') (dropWhile (\<lambda>c. c = CHR '' '') (tl t))"
    unfolding tl using tuple_text_name(1) [OF d] by simp
  have "drop 2 (dropWhile (\<lambda>c. c = CHR '' '')
      (tl (dropWhile (\<lambda>c. c \<noteq> CHR '']'') (tl t)))) = r @ rest"
    unfolding tl tuple_text_name(2) [OF d] by simp
  then show "b = takeWhile (\<lambda>c. c \<noteq> CHR ''['') (dropWhile (\<lambda>c. c = CHR '' '')
           (drop 2 (dropWhile (\<lambda>c. c = CHR '' '')
              (tl (dropWhile (\<lambda>c. c \<noteq> CHR '']'') (tl t))))))"
    using tuple_text_name(1) [OF r] by simp
qed


text \<open>
  C1, as stated, fails: \<open>set_schedule\<close> compares the domain tuple name of the map with
  its range tuple name only, so it stores a relation named \<open>T\<close> as the schedule of a
  computation whose iteration set is named \<open>S0\<close>.
\<close>

theorem set_schedule_other_name_counterexample:
  "schedule_named_as_iter_space comp_S0
   \<and> set_schedule (Some map_T) comp_S0 = Inr (comp_S0\<lparr>schedule := Some map_T\<rparr>)
   \<and> \<not> schedule_named_as_iter_space (comp_S0\<lparr>schedule := Some map_T\<rparr>)"
  by (simp add: schedule_named_as_iter_space_def set_schedule_def isl_map_get_tuple_name_def
        comp_S0_def set_S0_def map_S0_def map_T_def)

text \<open>
  C1, amended. The constructor reads the iteration set from the text and takes the
  computation's name from the tuple name of that set. When the library prints that set in
  the set form, without a parameter list, and reads tuple names as they are written, the
  constructor leaves a schedule whose domain tuple name is the tuple name of the
  iteration set, and whose range tuple has the same name. After any sequence of
  \<open>set_schedule\<close>, \<open>split\<close>, \<open>interchange\<close> and \<open>tile\<close> that succeeds, the domain and range
  tuple names of the schedule still agree, and the domain tuple name of the schedule is
  still the tuple name of the iteration set provided that every map given to
  \<open>set_schedule\<close> in the sequence has that domain tuple name. \<open>set_schedule\<close> fails its
  assertion on a map whose domain and range tuples have different names, and stores a
  map only if the two tuples have one and the same name; it does not look at the
  iteration set: after it, the domain tuple name of the schedule is the tuple name of the
  iteration set exactly when the map given has that domain tuple name.
\<close>

theorem schedule_tuple_names:
  "(in_tuple_name m = Some a \<and> out_tuple_name m = Some b \<and> a \<noteq> b \<longrightarrow>
      set_schedule (Some m) c = Inl AssertionFailed)
   \<and> (set_schedule mo c = Inr c1 \<longrightarrow>
        (\<exists>m a. mo = Some m \<and> in_tuple_name m = Some a \<and> out_tuple_name m = Some a
           \<and> c1 = c\<lparr>schedule := Some m\<rparr>))
   \<and> (set_schedule (Some m') c = Inr c1 \<and> iter_space c = Some s \<longrightarrow>
        (schedule_named_as_iter_space c1 \<longleftrightarrow> in_tuple_name m' = set_tuple_name s))
   \<and> (new_computation isl' this expr str fct' cl = Inr (c2, cl', f') \<longrightarrow>
        (\<exists>s. isl_set_read_from_str isl' str = Some s \<and> iter_space c2 = Some s
           \<and> set_tuple_name s = Some (name c2))
        \<and> schedule_names_agree c2)
   \<and> (new_computation isl' this expr str fct' cl = Inr (c2, cl', f')
        \<and> reads_tuple_names isl' \<and> (\<exists>s. iter_space c2 = Some s \<and> prints_set_form isl' s)
        \<longrightarrow> schedule_named_as_iter_space c2)
   \<and> (schedule_names_agree c \<and> apply_ops c ops = Inr c3 \<longrightarrow> schedule_names_agree c3)
   \<and> (schedule_named_as_iter_space c \<and> apply_ops c ops = Inr c3
        \<and> (\<forall>m. SetSchedule (Some m) \<in> set ops \<longrightarrow>
              Some (in_tuple_name m) = map_option set_tuple_name (iter_space c))
        \<longrightarrow> schedule_named_as_iter_space c3)"
proof (intro conjI impI)
  assume "in_tuple_name m = Some a \<and> out_tuple_name m = Some b \<and> a \<noteq> b"
  then show "set_schedule (Some m) c = Inl AssertionFailed"
    by (simp add: set_schedule_def isl_map_get_tuple_name_def)
next
  assume "set_schedule mo c = Inr c1"
  then show "\<exists>m a. mo = Some m \<and> in_tuple_name m = Some a \<and> out_tuple_name m = Some a
           \<and> c1 = c\<lparr>schedule := Some m\<rparr>"
    by (simp only: set_schedule_Inr)
next
  assume "set_schedule (Some m') c = Inr c1 \<and> iter_space c = Some s"
  then show "schedule_named_as_iter_space c1 \<longleftrightarrow> in_tuple_name m' = set_tuple_name s"
    using set_schedule_named [of m' c c1 s] by blast
next
  assume n: "new_computation isl' this expr str fct' cl = Inr (c2, cl', f')"
  from new_computation_Inr [OF n]
  show "\<exists>s. isl_set_read_from_str isl' str = Some s \<and> iter_space c2 = Some s
           \<and> set_tuple_name s = Some (name c2)"
    by (rule conjunct1)
  from new_computation_Inr [OF n] show "schedule_names_agree c2"
    by (rule conjunct2)
next
  assume "new_computation isl' this expr str fct' cl = Inr (c2, cl', f')
        \<and> reads_tuple_names isl' \<and> (\<exists>s. iter_space c2 = Some s \<and> prints_set_form isl' s)"
  then show "schedule_named_as_iter_space c2"
    using new_computation_named [of isl' this expr str fct' cl c2 cl' f'] by blast
next
  assume "schedule_names_agree c \<and> apply_ops c ops = Inr c3"
  then show "schedule_names_agree c3"
    using apply_ops_names_agree by blast
next
  assume "schedule_named_as_iter_space c \<and> apply_ops c ops = Inr c3
        \<and> (\<forall>m. SetSchedule (Some m) \<in> set ops \<longrightarrow>
              Some (in_tuple_name m) = map_option set_tuple_name (iter_space c))"
  then show "schedule_named_as_iter_space c3"
    using apply_ops_named_as_iter_space [of c ops c3] by blast
qed

theorem schedule_tuple_names_witness:
  "in_tuple_name map_S0_T = Some ''S0'' \<and> out_tuple_name map_S0_T = Some ''T''
   \<and> ''S0'' \<noteq> ''T''
   \<and> set_schedule (Some map_S0_T) comp_S0 = Inl AssertionFailed
   \<and> set_schedule (Some map_S0) comp_S0 = Inr comp_S0
   \<and> iter_space comp_S0 = Some set_S0
   \<and> in_tuple_name map_S0 = set_tuple_name set_S0
   \<and> reads_tuple_names isl_S0 \<and> prints_set_form isl_S0 set_S0
   \<and> new_computation isl_S0 1 3 ''{S0[i]: 0<=i<=1}'' (Some (0, function0)) no_computations
       = Inr (comp_S0, no_computations(''S0'' \<mapsto> 1), function0\<lparr>body := [1]\<rparr>)
   \<and> name comp_S0 = ''S0''
   \<and> schedule_names_agree comp_S0 \<and> schedule_named_as_iter_space comp_S0
   \<and> apply_ops comp_S0 [Split 0 2, SetSchedule (Some map_S0)] = Inr comp_S0
   \<and> in_tuple_name map_S0 = Some ''S0''"
proof -
  have ids: "identity_schedule_str ''{ S0[i] : 0 <= i <= 1 }''
      = Inr ''{ S0[i]  ->  S0[i] : 0 <= i <= 1 }''"
    by (simp add: identity_schedule_str_def string_find_def string_erase_def string_insert_def
          bind_error_def npos_def size_t_sub_def size_t_add_def)
  have s0: "set_schedule (Some map_S0) c = Inr (c\<lparr>schedule := Some map_S0\<rparr>)"
    for c :: "(int, unit, unit) computation"
    by (simp add: set_schedule_def isl_map_get_tuple_name_def map_S0_def)
  have new: "new_computation isl_S0 1 3 ''{S0[i]: 0<=i<=1}'' (Some (0, function0))
      no_computations
       = Inr (comp_S0, no_computations(''S0'' \<mapsto> 1), function0\<lparr>body := [1]\<rparr>)"
    by (simp add: new_computation_def isl_S0_def function0_def no_computations_def
          isl_space_get_tuple_name_def isl_set_get_space_def set_identity_schedule_def
          get_iteration_space_representation_def bind_error_def ids set_schedule_str_def
          s0 add_computation_def comp_S0_def set_S0_def)
  have ops: "apply_ops comp_S0 [Split 0 2, SetSchedule (Some map_S0)] = Inr comp_S0"
    by (simp add: split_def bind_error_def s0) (simp add: comp_S0_def map_S0_def)
  have t: "in_tuple_name map_S0_T = Some ''S0''" "out_tuple_name map_S0_T = Some ''T''"
    by (simp_all add: map_S0_T_def)
  have n: "name comp_S0 = ''S0''" "in_tuple_name map_S0 = Some ''S0''"
    "iter_space comp_S0 = Some set_S0" "in_tuple_name map_S0 = set_tuple_name set_S0"
    by (simp_all add: comp_S0_def map_S0_def set_S0_def)
  have s: "set_schedule (Some map_S0) comp_S0 = Inr comp_S0"
    by (simp add: s0) (simp add: comp_S0_def)
  have reads: "reads_tuple_names isl_S0"
    unfolding reads_tuple_names_def
  proof (intro allI impI)
    fix t a b m
    assume h: "isl_map_read_from_str isl_S0 t = Some m \<and> map_text a b t"
    then have t: "t = ''{ S0[i]  ->  S0[i] : 0 <= i <= 1 }''" and m: "m = map_S0"
      by (simp_all add: isl_S0_def split: if_splits)
    from h map_text_names [of a b t] have "a = ''S0''" "b = ''S0''"
      by (simp_all add: t)
    then show "in_tuple_name m = Some a \<and> out_tuple_name m = Some b"
      by (simp add: m map_S0_def)
  qed
  have prints: "prints_set_form isl_S0 set_S0"
  proof -
    have "'' S0[i] '' = '' '' @ ''S0'' @ ''['' @ ''i'' @ '']'' @ '' ''"
      by simp
    then have "tuple_text ''S0'' '' S0[i] ''"
      unfolding tuple_text_def spaces_def
      by (intro conjI exI [of _ "'' ''"] exI [of _ "''i''"]) simp_all
    then have tt: "tuple_text ''S0'' '' S0[i] ''" .
    have "\<exists>c. ''{ S0[i] : 0 <= i <= 1 }'' = ''{'' @ '' S0[i] '' @ '':'' @ c @ ''}''
        \<and> CHR ''}'' \<notin> set c"
      by (rule exI [of _ "'' 0 <= i <= 1 ''"]) simp
    with tt have "\<exists>d. tuple_text ''S0'' d
        \<and> (''{ S0[i] : 0 <= i <= 1 }'' = ''{'' @ d @ ''}''
            \<or> (\<exists>c. ''{ S0[i] : 0 <= i <= 1 }'' = ''{'' @ d @ '':'' @ c @ ''}''
                  \<and> CHR ''}'' \<notin> set c))"
      by (rule_tac x = "'' S0[i] ''" in exI) (rule conjI, assumption, rule disjI2, assumption)
    then have "set_text ''S0'' ''{ S0[i] : 0 <= i <= 1 }''"
      unfolding set_text_def by simp
    then show ?thesis
      by (simp add: prints_set_form_def set_S0_def isl_S0_def)
  qed
  note inst = schedule_tuple_names [of map_S0_T "''S0''" "''T''" comp_S0 "Some map_S0" comp_S0
      map_S0 set_S0 isl_S0 1 3 "''{S0[i]: 0<=i<=1}''" "Some (0, function0)" no_computations comp_S0
      "no_computations(''S0'' \<mapsto> 1)" "function0\<lparr>body := [1]\<rparr>"
      "[Split 0 2, SetSchedule (Some map_S0)]" comp_S0]
  from inst new ops n s reads prints
  have inv: "schedule_names_agree comp_S0" "schedule_named_as_iter_space comp_S0"
    by simp_all
  from inst t have "set_schedule (Some map_S0_T) comp_S0 = Inl AssertionFailed"
    by simp
  with new ops inv t n s reads prints show ?thesis by simp
qed

subsection \<open>AST generation\<close>

text \<open>
  C6. When the library's time-processor representation and its time-processor identity
  relation are both there, \<open>gen_isl_ast\<close> succeeds and stores the AST that the generator
  returns for exactly the identity relation intersected on its domain with the
  time-processor representation. The generator is called with a build that carries the
  after-each-for and the at-each-domain callbacks, in a context whose atomic-upper-bound
  option is 1; nothing else of the library changes.
\<close>

theorem gen_isl_ast_from_identity_relation:
  assumes "library_time_processor_representation env lib = Some tp"
    and "library_time_processor_identity_relation env lib = Some idr"
  shows "(let lib1 = lib\<lparr>ctx := (ctx lib)\<lparr>ast_build_atomic_upper_bound := 1\<rparr>\<rparr> in
          gen_isl_ast env lib =
            Inr (lib1\<lparr>ast :=
                   isl_ast_build_node_from_schedule_map env (ctx lib1)
                     \<lparr>after_each_for = Some for_code_generator_after_for,
                      at_each_domain = Some stmt_code_generator\<rparr>
                     (isl_union_map_intersect_domain
                        (library_time_processor_identity_relation env lib1)
                        (library_time_processor_representation env lib1))\<rparr>)
          \<and> ast_build_atomic_upper_bound (ctx lib1) = 1)"
  using assms
  by (simp add: gen_isl_ast_def Let_def isl_ast_build_alloc_def
        isl_ast_build_set_after_each_for_def isl_ast_build_set_at_each_domain_def
        isl_options_set_ast_build_atomic_upper_bound_def)

theorem gen_isl_ast_from_identity_relation_witness:
  "library_time_processor_representation env0 library1 = Some [set_S0]
   \<and> library_time_processor_identity_relation env0 library1 = Some [identity_S0]
   \<and> gen_isl_ast env0 library1 =
       Inr (library1\<lparr>ctx := \<lparr>ast_build_atomic_upper_bound = 1\<rparr>,
              ast := Some (\<lparr>ast_build_atomic_upper_bound = 1\<rparr>,
                           \<lparr>after_each_for = Some for_code_generator_after_for,
                            at_each_domain = Some stmt_code_generator\<rparr>,
                           isl_union_map_intersect_domain (Some [identity_S0])
                             (Some [set_S0]))\<rparr>)"
proof -
  have a: "library_time_processor_representation env0 library1 = Some [set_S0]"
    and b: "library_time_processor_identity_relation env0 library1 = Some [identity_S0]"
    by (simp_all add: env0_def)
  from gen_isl_ast_from_identity_relation [OF a b] a b show ?thesis
    by (simp add: Let_def env0_def library1_def)
qed

subsection \<open>The fusion pass of the state generator\<close>

lemma fusions_loop_j_eq:
  "fusions_loop_j M level lv ast' i j states =
     states @ map (\<lambda>j. fusion_candidate M ast' (level, lv, i, j))
                (filter (\<lambda>j. \<not> unrolled (lv ! j)
                    \<and> node_name (lv ! i) = node_name (lv ! j)
                    \<and> low_bound (lv ! i) = low_bound (lv ! j)
                    \<and> up_bound (lv ! i) = up_bound (lv ! j)) [j..<length lv])"
proof (induction M level lv ast' i j states rule: fusions_loop_j.induct)
  case (1 M level lv ast' i j states)
  show ?case
  proof (cases "j < length lv")
    case False
    then show ?thesis by (subst fusions_loop_j.simps) simp
  next
    case True
    then have up: "[j..<length lv] = j # [j + 1..<length lv]"
      by (simp add: upt_conv_Cons)
    show ?thesis
      using True "1.IH"
      by (subst fusions_loop_j.simps)
         (simp add: up Let_def copy_and_return_node_def new_syntax_tree_def
            new_optimization_info_def fusion_candidate_def)
  qed
qed


lemma fusible_filter:
  assumes "\<not> unrolled (lv ! i)"
  shows "filter (fusible lv i) [Suc i..<length lv] =
         filter (\<lambda>j. \<not> unrolled (lv ! j)
                    \<and> node_name (lv ! i) = node_name (lv ! j)
                    \<and> low_bound (lv ! i) = low_bound (lv ! j)
                    \<and> up_bound (lv ! i) = up_bound (lv ! j)) [Suc i..<length lv]"
  using assms by (intro filter_cong) (auto simp: fusible_def)

lemma fusible_filter_unrolled:
  assumes "unrolled (lv ! i)"
  shows "filter (fusible lv i) js = []"
  using assms by (simp add: fusible_def)

lemma fusions_loop_i_eq:
  "fusions_loop_i M level lv ast' i states =
     states @ map (fusion_candidate M ast')
       (concat (map (\<lambda>i. map (\<lambda>j. (level, lv, i, j))
                          (filter (fusible lv i) [Suc i..<length lv])) [i..<length lv]))"
proof (induction M level lv ast' i states rule: fusions_loop_i.induct)
  case (1 M level lv ast' i states)
  show ?case
  proof (cases "i < length lv")
    case False
    then show ?thesis by (subst fusions_loop_i.simps) simp
  next
    case True
    then have up: "[i..<length lv] = i # [i + 1..<length lv]"
      by (simp add: upt_conv_Cons)
    show ?thesis
    proof (cases "unrolled (lv ! i)")
      case unr: True
      with True "1.IH"(1) show ?thesis
        by (subst fusions_loop_i.simps) (simp add: up fusible_filter_unrolled)
    next
      case unr: False
      with True "1.IH"(2) show ?thesis
        by (subst fusions_loop_i.simps)
           (simp add: up fusible_filter fusions_loop_j_eq comp_def)
    qed
  qed
qed

lemma fusions_loop_i_level:
  "fusions_loop_i M level lv ast' 0 states =
     states @ map (fusion_candidate M ast') (level_fusions level lv)"
  by (simp add: fusions_loop_i_eq level_fusions_def)

lemma generate_fusions_eq:
  "generate_fusions M level lv states ast' =
     states @ map (fusion_candidate M ast') (tree_fusions level lv)"
  "fusions_for_each M level k lv' states ast' =
     states @ map (fusion_candidate M ast') (tree_fusions_from level k lv')"
proof (induction M level lv states ast' and M level k lv' states ast'
    rule: generate_fusions_fusions_for_each.induct)
  case (1 M level tree_level states ast')
  then show ?case by (simp add: fusions_loop_i_level)
next
  case (2 M level k states ast')
  then show ?case by simp
next
  case (3 M level k nm lo up un d x cs rest states ast')
  then show ?case by simp
qed


lemma level_fusions_iff:
  "(q, l, i, j) \<in> set (level_fusions level lv) \<longleftrightarrow> q = level \<and> l = lv \<and> fusible lv i j"
proof
  assume "(q, l, i, j) \<in> set (level_fusions level lv)"
  then show "q = level \<and> l = lv \<and> fusible lv i j"
    by (auto simp: level_fusions_def fusible_def)
next
  assume a: "q = level \<and> l = lv \<and> fusible lv i j"
  then have i: "i < length lv" and j: "Suc i \<le> j" "j < length lv"
    by (auto simp: fusible_def)
  have "(level, lv, i, j) \<in> (\<lambda>j. (level, lv, i, j)) ` set (filter (fusible lv i) [Suc i..<length lv])"
    using a j by simp
  then have "\<exists>i' \<in> set [0..<length lv].
      (level, lv, i, j) \<in> set (map (\<lambda>j. (level, lv, i', j)) (filter (fusible lv i') [Suc i'..<length lv]))"
    using i by (intro bexI [of _ i]) simp_all
  then show "(q, l, i, j) \<in> set (level_fusions level lv)"
    using a by (simp add: level_fusions_def)
qed

lemma tree_fusions_iff:
  "(q, l, i, j) \<in> set (tree_fusions level lv) \<longleftrightarrow>
     (\<exists>r. q = level @ r \<and> level_at lv r = Some l \<and> fusible l i j)"
  "(q, l, i, j) \<in> set (tree_fusions_from level k lv') \<longleftrightarrow>
     (\<exists>k' r. k' < length lv' \<and> q = level @ (k + k') # r
        \<and> level_at (children (lv' ! k')) r = Some l \<and> fusible l i j)"
proof (induction level lv and level k lv' rule: tree_fusions_tree_fusions_from.induct)
  case (1 level tree_level)
  show ?case (is "?L \<longleftrightarrow> ?R")
  proof
    assume ?L
    then consider "q = level \<and> l = tree_level \<and> fusible tree_level i j"
      | k' r where "k' < length tree_level" "q = level @ k' # r"
          "level_at (children (tree_level ! k')) r = Some l" "fusible l i j"
      using 1 by (auto simp: level_fusions_iff)
    then show ?R
    proof cases
      case 1
      then have "q = level @ [] \<and> level_at tree_level [] = Some l \<and> fusible l i j" by simp
      then show ?thesis by blast
    next
      case 2
      then have "q = level @ (k' # r) \<and> level_at tree_level (k' # r) = Some l \<and> fusible l i j"
        by simp
      then show ?thesis by blast
    qed
  next
    assume ?R
    then obtain r where r: "q = level @ r" "level_at tree_level r = Some l" "fusible l i j"
      by blast
    show ?L
    proof (cases r)
      case Nil
      with r show ?thesis by (simp add: level_fusions_iff)
    next
      case (Cons k' r')
      with r have "k' < length tree_level \<and> q = level @ (0 + k') # r'
          \<and> level_at (children (tree_level ! k')) r' = Some l \<and> fusible l i j"
        by (simp split: if_splits)
      with 1 show ?thesis by auto
    qed
  qed
next
  case (2 level k)
  show ?case by simp
next
  case (3 level k nm lo up un d x cs rest)
  show ?case (is "?L \<longleftrightarrow> ?R")
  proof
    assume ?L
    then consider r where "q = (level @ [k]) @ r" "level_at cs r = Some l" "fusible l i j"
      | k' r where "k' < length rest" "q = level @ (k + 1 + k') # r"
          "level_at (children (rest ! k')) r = Some l" "fusible l i j"
      using 3 by auto
    then show ?R
    proof cases
      case 1
      then have "0 < length (Ast_node nm lo up un d x cs # rest) \<and> q = level @ (k + 0) # r
          \<and> level_at (children ((Ast_node nm lo up un d x cs # rest) ! 0)) r = Some l
          \<and> fusible l i j"
        by simp
      then show ?thesis by blast
    next
      case 2
      then have "Suc k' < length (Ast_node nm lo up un d x cs # rest)
          \<and> q = level @ (k + Suc k') # r
          \<and> level_at (children ((Ast_node nm lo up un d x cs # rest) ! Suc k')) r = Some l
          \<and> fusible l i j"
        by simp
      then show ?thesis by blast
    qed
  next
    assume ?R
    then obtain k' r where r: "k' < length (Ast_node nm lo up un d x cs # rest)"
        "q = level @ (k + k') # r"
        "level_at (children ((Ast_node nm lo up un d x cs # rest) ! k')) r = Some l"
        "fusible l i j"
      by blast
    show ?L
    proof (cases k')
      case 0
      with r have "q = (level @ [k]) @ r \<and> level_at cs r = Some l \<and> fusible l i j" by simp
      with 3 show ?thesis by auto
    next
      case (Suc k'')
      with r have "k'' < length rest \<and> q = level @ (k + 1 + k'') # r
          \<and> level_at (children (rest ! k'')) r = Some l \<and> fusible l i j"
        by simp
      with 3 show ?thesis by auto
    qed
  qed
qed


lemma distinct_concat_map:
  assumes "distinct xs" and "\<And>x. x \<in> set xs \<Longrightarrow> distinct (f x)"
    and "\<And>x y. x \<in> set xs \<Longrightarrow> y \<in> set xs \<Longrightarrow> x \<noteq> y \<Longrightarrow> set (f x) \<inter> set (f y) = {}"
  shows "distinct (concat (map f xs))"
  using assms
proof (induction xs)
  case Nil
  then show ?case by simp
next
  case (Cons x xs)
  have "distinct (concat (map f xs))"
    using Cons.prems by (intro Cons.IH) auto
  moreover have "set (f x) \<inter> set (f y) = {}" if "y \<in> set xs" for y
    using Cons.prems(1) Cons.prems(3) [of x y] that by auto
  ultimately show ?case
    using Cons.prems(2) [of x] by auto
qed

lemma distinct_level_fusions: "distinct (level_fusions level lv)"
  unfolding level_fusions_def
proof (rule distinct_concat_map)
  show "distinct [0..<length lv]" by simp
next
  fix i
  show "distinct (map (\<lambda>j. (level, lv, i, j)) (filter (fusible lv i) [Suc i..<length lv]))"
    by (simp add: distinct_map inj_on_def)
next
  fix i i' :: nat
  assume "i \<noteq> i'"
  then show "set (map (\<lambda>j. (level, lv, i, j)) (filter (fusible lv i) [Suc i..<length lv]))
      \<inter> set (map (\<lambda>j. (level, lv, i', j)) (filter (fusible lv i') [Suc i'..<length lv])) = {}"
    by auto
qed

lemma distinct_tree_fusions:
  fixes lv lv' :: "'a ast_node list"
  shows "distinct (tree_fusions level lv)"
    and "distinct (tree_fusions_from level k lv')"
proof (induction level lv and level k lv' rule: tree_fusions_tree_fusions_from.induct)
  case (1 level tree_level)
  have "e \<notin> set (tree_fusions_from level 0 tree_level)"
    if "e \<in> set (level_fusions level tree_level)" for e
  proof
    obtain q l i j where e: "e = (q, l, i, j)" by (cases e)
    assume "e \<in> set (tree_fusions_from level 0 tree_level)"
    then obtain k' r where "q = level @ (0 + k') # r"
      unfolding e tree_fusions_iff by blast
    moreover from that have "q = level"
      unfolding e level_fusions_iff by blast
    ultimately show False by simp
  qed
  with 1 distinct_level_fusions [of level tree_level] show ?case
    by (simp add: disjoint_iff)
next
  case (2 level k)
  show ?case by simp
next
  case (3 level k nm lo up un d x cs rest)
  have "e \<notin> set (tree_fusions_from level (k + 1) rest)"
    if "e \<in> set (tree_fusions (level @ [k]) cs)" for e
  proof
    obtain q l i j where e: "e = (q, l, i, j)" by (cases e)
    assume "e \<in> set (tree_fusions_from level (k + 1) rest)"
    then obtain k' r where "q = level @ (k + 1 + k') # r"
      unfolding e tree_fusions_iff by blast
    moreover from that obtain r' where "q = (level @ [k]) @ r'"
      unfolding e tree_fusions_iff by blast
    ultimately show False by simp
  qed
  with 3 show ?case
    by (simp add: disjoint_iff)
qed


lemma fusion_candidate_inj:
  assumes a: "(q, l, i, j) \<in> set (tree_fusions [] rs)"
    and b: "(q', l', i', j') \<in> set (tree_fusions [] rs)"
    and eq: "fusion_candidate M ast' (q, l, i, j) = fusion_candidate M ast' (q', l', i', j')"
  shows "(q, l, i, j) = (q', l', i', j')"
proof -
  from eq have "map node (optims_info (fusion_candidate M ast' (q, l, i, j)))
      = map node (optims_info (fusion_candidate M ast' (q', l', i', j')))"
    and "map l1 (optims_info (fusion_candidate M ast' (q, l, i, j)))
      = map l1 (optims_info (fusion_candidate M ast' (q', l', i', j')))"
    by simp_all
  then have q: "q = q'" and i: "i = i'" and j: "j = j'"
    by (simp_all add: fusion_candidate_def)
  from a b have "level_at rs q = Some l" "level_at rs q' = Some l'"
    unfolding tree_fusions_iff by simp_all
  with q have "l = l'" by simp
  with q i j show ?thesis by simp
qed

text \<open>
  C8. Called on the roots of a syntax tree, \<open>generate_fusions\<close> appends to the states
  exactly one candidate for every pair of siblings \<open>(i, j)\<close>, \<open>i\<close> before \<open>j\<close>, of every
  level of the tree whose iterator name, lower bound and upper bound are the same and
  neither of which is unrolled: the candidates are those of the fusible pairs of the
  tree, no candidate is emitted twice, and a pair is among them exactly when its level is
  a level of the tree and the pair is fusible there. Each candidate has the roots of the
  tree (it is a clone) and one optimization record.
\<close>

theorem generate_fusions_candidates:
  "generate_fusions M [] (roots ast') states ast' =
     states @ map (fusion_candidate M ast') (tree_fusions [] (roots ast'))
   \<and> distinct (map (fusion_candidate M ast') (tree_fusions [] (roots ast')))
   \<and> ((q, l, i, j) \<in> set (tree_fusions [] (roots ast')) \<longleftrightarrow>
        level_at (roots ast') q = Some l \<and> fusible l i j)
   \<and> roots (fusion_candidate M ast' (q, l, i, j)) = roots ast'
   \<and> length (optims_info (fusion_candidate M ast' (q, l, i, j))) = 1"
proof -
  have "inj_on (fusion_candidate M ast') (set (tree_fusions [] (roots ast')))"
  proof (rule inj_onI)
    fix e e'
    assume e: "e \<in> set (tree_fusions [] (roots ast'))" "e' \<in> set (tree_fusions [] (roots ast'))"
      and eq: "fusion_candidate M ast' e = fusion_candidate M ast' e'"
    obtain q l i j q' l' i' j' where "e = (q, l, i, j)" "e' = (q', l', i', j')"
      by (cases e, cases e')
    with e eq show "e = e'"
      using fusion_candidate_inj [of q l i j "roots ast'" q' l' i' j' M ast'] by simp
  qed
  with distinct_tree_fusions(1) [of "[]" "roots ast'"]
  have "distinct (map (fusion_candidate M ast') (tree_fusions [] (roots ast')))"
    unfolding distinct_map by (rule conjI)
  moreover have "(q, l, i, j) \<in> set (tree_fusions [] (roots ast')) \<longleftrightarrow>
        level_at (roots ast') q = Some l \<and> fusible l i j"
    unfolding tree_fusions_iff by simp
  ultimately show ?thesis
    by (simp add: generate_fusions_eq fusion_candidate_def
          del: generate_fusions.simps tree_fusions.simps)
qed


theorem generate_fusions_candidates_witness:
  "generate_fusions example_methods [] (roots tree_fusible) [] tree_fusible =
     [fusion_candidate example_methods tree_fusible ([], roots tree_fusible, 0, 1),
      fusion_candidate example_methods tree_fusible
        ([0], children (roots tree_fusible ! 0), 0, 1)]
   \<and> fusion_candidate example_methods tree_fusible ([], roots tree_fusible, 0, 1) =
       \<lparr>roots = roots tree_fusible,
        optims_info =
          [\<lparr>optim_type = FUSION, node = [0], comps = [''D'', ''B''], nb_l = Some 2,
            l0 = Some 0, l1 = Some 1, l2 = None, l0_fact = Some 0, l1_fact = None,
            l2_fact = None\<rparr>]\<rparr>
   \<and> level_at (roots tree_fusible) [0] = Some (children (roots tree_fusible ! 0))
   \<and> fusible (children (roots tree_fusible ! 0)) 0 1"
proof -
  have t: "tree_fusions [] (roots tree_fusible) =
      [([], roots tree_fusible, 0, 1), ([0], children (roots tree_fusible ! 0), 0, 1)]"
    by (simp add: tree_fusible_def level_fusions_def fusible_def)
  have c: "fusion_candidate example_methods tree_fusible ([], roots tree_fusible, 0, 1) =
       \<lparr>roots = roots tree_fusible,
        optims_info =
          [\<lparr>optim_type = FUSION, node = [0], comps = [''D'', ''B''], nb_l = Some 2,
            l0 = Some 0, l1 = Some 1, l2 = None, l0_fact = Some 0, l1_fact = None,
            l2_fact = None\<rparr>]\<rparr>"
    by (simp add: fusion_candidate_def example_methods_def tree_fusible_def)
  have l: "level_at (roots tree_fusible) [0] = Some (children (roots tree_fusible ! 0))"
    "fusible (children (roots tree_fusible ! 0)) 0 1"
    by (simp_all add: tree_fusible_def fusible_def)
  from generate_fusions_candidates [of example_methods tree_fusible "[]" "[0]"
      "children (roots tree_fusible ! 0)" 0 1]
  have "generate_fusions example_methods [] (roots tree_fusible) [] tree_fusible =
     map (fusion_candidate example_methods tree_fusible) (tree_fusions [] (roots tree_fusible))"
    by simp
  with t c l show ?thesis by simp
qed


subsection \<open>The interchange pass of the state generator\<close>












end
